theory Spec2Isabelle
  imports Main "HOL-Library.Product_Lexorder"
begin

section \<open>The activity feed of c2corg\_api (views/feed.py)\<close>

text \<open>
  The feed views read a log of document changes, filter it by the preferences of a user,
  cut it into pages with a continuation token and load the documents that each change
  refers to. The database is a value that every function receives; an exception of the
  Python code is the left summand of the result.
\<close>

subsection \<open>Errors\<close>

datatype error =
    HTTPNotFound      \<comment> \<open>\<open>raise HTTPNotFound('user not found')\<close>, status 404\<close>
  | HTTPForbidden     \<comment> \<open>\<open>raise HTTPForbidden(...)\<close>, status 403\<close>
  | HTTPBadRequest    \<comment> \<open>a validator rejected the query string, status 400\<close>
  | KeyError          \<comment> \<open>\<open>documents[k]\<close> on a key that is not in the dict\<close>
  | AttributeError    \<comment> \<open>an attribute of \<open>None\<close> was read\<close>
  | DataError         \<comment> \<open>the database refused the statement\<close>

definition bind :: "error + 'a \<Rightarrow> ('a \<Rightarrow> error + 'b) \<Rightarrow> error + 'b" where
  "bind r f = (case r of Inl e \<Rightarrow> Inl e | Inr v \<Rightarrow> f v)"

subsection \<open>Data model\<close>

text \<open>
  A \<open>datetime\<close> is a point of a discrete time line; only its order and its ISO rendering
  are used by the feed. The rendering (\<open>datetime.isoformat\<close>) belongs to the Python
  library and is a parameter \<open>isoformat\<close> of the functions that call it.
\<close>

type_synonym timestamp = int

record DocumentChange =
  change_id :: int
  time :: timestamp
  user_id :: int
  user_ids :: "int list"
  document_id :: int
  document_type :: string
  change_type :: string
  area_ids :: "int list"
  activities :: "string list"
  image1_id :: "int option"
  image2_id :: "int option"
  image3_id :: "int option"
  more_images :: bool

text \<open>The columns of \<open>User\<close> that the feed reads (\<open>User.id\<close> is \<open>User_id\<close>).\<close>

record User =
  User_id :: int
  email_validated :: bool
  is_profile_public :: bool
  feed_followed_only :: bool
  feed_filter_activities :: "string list"

text \<open>
  \<open>FollowedUser(follower_user_id, followed_user_id)\<close> and \<open>FilterArea(user_id, area_id)\<close>
  are tables of pairs.
\<close>

record database =
  users :: "User list"
  followed_users :: "(int \<times> int) list"
  filter_areas :: "(int \<times> int) list"
  document_changes :: "DocumentChange list"

text \<open>
  Modelled from the spec: the declarations of \<open>User.has_area_filter\<close> and
  \<open>User.is_following_users\<close> (models/user.py) are not among the sources; the spec calls
  them derived booleans of the associated sets \<open>FilterArea\<close> and \<open>FollowedUser\<close>.
\<close>

definition has_area_filter :: "database \<Rightarrow> User \<Rightarrow> bool" where
  "has_area_filter db user = list_ex (\<lambda>(u, a). u = User_id user) (filter_areas db)"

definition is_following_users :: "database \<Rightarrow> User \<Rightarrow> bool" where
  "is_following_users db user = list_ex (\<lambda>(f, g). f = User_id user) (followed_users db)"

text \<open>A hydrated document: the dict that the document listing returns, with its key.\<close>

record doc =
  doc_document_id :: int
  doc_type :: string
  doc_body :: string

text \<open>One element of \<open>'feed'\<close> in the response, and the response itself.\<close>

record FeedEntry =
  entry_id :: int
  entry_time :: string
  entry_user :: doc
  participants :: "doc list"
  entry_change_type :: string
  entry_document :: doc
  image1 :: "doc option"
  image2 :: "doc option"
  image3 :: "doc option"
  entry_more_images :: bool

record FeedResponse =
  feed :: "FeedEntry list"
  pagination_token :: "string option"   \<comment> \<open>\<open>None\<close>: the key is absent\<close>

text \<open>\<open>request.validated\<close>, the authenticated user and the permission check.\<close>

record request =
  validated_lang :: "string option"
  validated_token_id :: "int option"
  validated_token_time :: "timestamp option"
  validated_limit :: "int option"
  validated_u :: int
  authenticated_userid :: "int option"
  has_permission_authenticated :: bool

subsection \<open>Page limit\<close>

definition DEFAULT_PAGE_LIMIT :: int where
  "DEFAULT_PAGE_LIMIT = 10"

definition MAX_PAGE_LIMIT :: int where
  "MAX_PAGE_LIMIT = 50"

definition get_params :: "request \<Rightarrow> string option \<times> int option \<times> timestamp option \<times> int" where
  "get_params req =
     (let lang = validated_lang req;
          token_id = validated_token_id req;
          token_time = validated_token_time req;
          limit = validated_limit req;
          limit = min (case limit of None \<Rightarrow> DEFAULT_PAGE_LIMIT | Some l \<Rightarrow> l) MAX_PAGE_LIMIT
      in (lang, token_id, token_time, limit))"

subsection \<open>Filter conditions\<close>

text \<open>
  The SQL expressions that the filter builders return. \<open>&&\<close> is the array overlap of
  PostgreSQL. A subquery is replaced by the array it aggregates, read from the same
  database value. A condition whose subquery has no row is NULL in SQL; as no builder
  negates a condition, NULL and false keep the same rows, and the model has false.
\<close>

datatype condition =
    user_ids_overlap "int list"
  | area_ids_overlap "int list"
  | activities_overlap "string list"
  | sql_and condition condition
  | sql_or condition condition

definition overlap :: "'a list \<Rightarrow> 'a list \<Rightarrow> bool" where
  "overlap xs ys = list_ex (\<lambda>x. x \<in> set ys) xs"

fun holds :: "condition \<Rightarrow> DocumentChange \<Rightarrow> bool" where
  "holds (user_ids_overlap ids) c = overlap (user_ids c) ids"
| "holds (area_ids_overlap ids) c = overlap (area_ids c) ids"
| "holds (activities_overlap acts) c = overlap (activities c) acts"
| "holds (sql_and p q) c = (holds p c \<and> holds q c)"
| "holds (sql_or p q) c = (holds p c \<or> holds q c)"

definition followed_ids :: "database \<Rightarrow> User \<Rightarrow> int list" where
  "followed_ids db user = map snd (filter (\<lambda>(f, g). f = User_id user) (followed_users db))"

definition filtered_area_ids :: "database \<Rightarrow> User \<Rightarrow> int list" where
  "filtered_area_ids db user = map snd (filter (\<lambda>(u, a). u = User_id user) (filter_areas db))"

definition create_followed_users_filter :: "database \<Rightarrow> User \<Rightarrow> condition option" where
  "create_followed_users_filter db user =
     (if \<not> is_following_users db user then None
      else Some (user_ids_overlap (followed_ids db user)))"

definition create_area_filter :: "database \<Rightarrow> User \<Rightarrow> condition option" where
  "create_area_filter db user =
     (if \<not> has_area_filter db user then None
      else Some (area_ids_overlap (filtered_area_ids db user)))"

definition create_activity_filter :: "User \<Rightarrow> condition option" where
  "create_activity_filter user =
     (if feed_filter_activities user = [] then None
      else Some (activities_overlap (feed_filter_activities user)))"

definition create_personal_filter :: "database \<Rightarrow> User \<Rightarrow> condition option" where
  "create_personal_filter db user =
     (if feed_followed_only user then create_followed_users_filter db user
      else
        let area_activity_filter =
              (if feed_filter_activities user \<noteq> [] \<or> has_area_filter db user then
                 (case (create_area_filter db user, create_activity_filter user) of
                    (Some area_filter, Some activity_filter) \<Rightarrow> Some (sql_and area_filter activity_filter)
                  | (Some area_filter, None) \<Rightarrow> Some area_filter
                  | (None, Some activity_filter) \<Rightarrow> Some activity_filter
                  | (None, None) \<Rightarrow> None)
               else None)
        in if area_activity_filter = None then None
           else
             let followed_users_filter =
                   (if is_following_users db user then create_followed_users_filter db user
                    else None)
             in case (area_activity_filter, followed_users_filter) of
                  (Some aaf, Some fuf) \<Rightarrow> Some (sql_or aaf fuf)
                | (Some aaf, None) \<Rightarrow> Some aaf
                | (None, Some fuf) \<Rightarrow> Some fuf
                | (None, None) \<Rightarrow> None)"

definition has_no_custom_filter :: "database \<Rightarrow> User \<Rightarrow> bool" where
  "has_no_custom_filter db user =
     (let has_custom_filter =
            (feed_filter_activities user \<noteq> [] \<or> has_area_filter db user \<or>
             is_following_users db user \<or> feed_followed_only user)
      in \<not> has_custom_filter)"

subsection \<open>Reading the change log\<close>

text \<open>
  \<open>order_by(DocumentChange.time.desc(), DocumentChange.change_id)\<close>: descending time,
  ascending id. Rows with the same key keep the order of the table.
\<close>

definition order_key :: "DocumentChange \<Rightarrow> int \<times> int" where
  "order_key c = (- time c, change_id c)"

definition ordered_changes :: "database \<Rightarrow> DocumentChange list" where
  "ordered_changes db = sort_key order_key (document_changes db)"

text \<open>
  \<open>query.limit(limit).all()\<close>. The limit is sent to PostgreSQL as it is: the database
  refuses a negative LIMIT and a LIMIT above the largest \<open>bigint\<close>, and the driver raises.
\<close>

definition MAX_BIGINT :: int where
  "MAX_BIGINT = 9223372036854775807"

definition limit_all :: "int \<Rightarrow> 'a list \<Rightarrow> error + 'a list" where
  "limit_all limit rows =
     (if limit < 0 \<or> MAX_BIGINT < limit then Inl DataError else Inr (take (nat limit) rows))"

definition pagination_filter :: "int \<Rightarrow> timestamp \<Rightarrow> DocumentChange \<Rightarrow> bool" where
  "pagination_filter token_id token_time c =
     (time c < token_time \<or> (time c = token_time \<and> change_id c > token_id))"

definition get_changes_of_feed ::
  "database \<Rightarrow> int option \<Rightarrow> timestamp option \<Rightarrow> int \<Rightarrow> condition option
     \<Rightarrow> error + DocumentChange list" where
  "get_changes_of_feed db token_id token_time limit extra_filter =
     (let query = ordered_changes db;
          query = (case (token_id, token_time) of
                     (Some i, Some t) \<Rightarrow> filter (pagination_filter i t) query
                   | _ \<Rightarrow> query);
          query = (case extra_filter of
                     Some f \<Rightarrow> filter (holds f) query
                   | None \<Rightarrow> query)
      in limit_all limit query)"

definition get_changes_of_personal_feed ::
  "database \<Rightarrow> int \<Rightarrow> int option \<Rightarrow> timestamp option \<Rightarrow> int \<Rightarrow> error + DocumentChange list" where
  "get_changes_of_personal_feed db uid token_id token_time limit =
     (case find (\<lambda>u. User_id u = uid) (users db) of
        None \<Rightarrow> Inl AttributeError
      | Some user \<Rightarrow>
          if has_no_custom_filter db user then
            get_changes_of_feed db token_id token_time limit None
          else
            let personal_filter = create_personal_filter db user
            in get_changes_of_feed db token_id token_time limit personal_filter)"

definition get_changes_of_profile_feed ::
  "database \<Rightarrow> int \<Rightarrow> int option \<Rightarrow> timestamp option \<Rightarrow> int \<Rightarrow> error + DocumentChange list" where
  "get_changes_of_profile_feed db uid token_id token_time limit =
     (let user_exists = list_ex (\<lambda>u. User_id u = uid) (users db)
      in if \<not> user_exists then Inl HTTPNotFound
         else
           let user_filter = user_ids_overlap [uid]
           in get_changes_of_feed db token_id token_time limit (Some user_filter))"

subsection \<open>Loading the documents of a page\<close>

definition USERPROFILE_TYPE :: string where
  "USERPROFILE_TYPE = ''u''"

definition IMAGE_TYPE :: string where
  "IMAGE_TYPE = ''i''"

text \<open>
  \<open>defaultdict(set)\<close>: the keys in the order of their first use, each with the ids added
  to it, without repetition.
\<close>

type_synonym ids_by_type = "(string \<times> int list) list"

definition add_id :: "string \<Rightarrow> int \<Rightarrow> ids_by_type \<Rightarrow> ids_by_type" where
  "add_id ty i m =
     (case map_of m ty of
        None \<Rightarrow> m @ [(ty, [i])]
      | Some _ \<Rightarrow> map (\<lambda>(k, ids). if k = ty then (k, List.insert i ids) else (k, ids)) m)"

text \<open>\<open>if change.image1_id: documents_to_load[IMAGE_TYPE].add(change.image1_id)\<close>\<close>

definition add_image :: "int option \<Rightarrow> ids_by_type \<Rightarrow> ids_by_type" where
  "add_image image_id m =
     (case image_id of
        None \<Rightarrow> m
      | Some i \<Rightarrow> if i \<noteq> 0 then add_id IMAGE_TYPE i m else m)"

definition add_change :: "DocumentChange \<Rightarrow> ids_by_type \<Rightarrow> ids_by_type" where
  "add_change change m =
     (let m = add_id (document_type change) (document_id change) m;
          m = add_id USERPROFILE_TYPE (user_id change) m;
          m = fold (add_id USERPROFILE_TYPE) (user_ids change) m;
          m = add_image (image1_id change) m;
          m = add_image (image2_id change) m;
          m = add_image (image3_id change) m
      in m)"

definition get_documents_to_load :: "DocumentChange list \<Rightarrow> ids_by_type" where
  "get_documents_to_load changes = fold add_change changes []"

text \<open>
  \<open>get_documents_for_ids(document_ids, lang, document_configs[document_type])\<close> with
  \<open>.get('documents')\<close> is the document listing, outside the feed: a parameter \<open>gd\<close> that
  receives the ids, the language and the type.
\<close>

type_synonym listing = "int list \<Rightarrow> string option \<Rightarrow> string \<Rightarrow> doc list"

definition store_docs :: "doc list \<Rightarrow> (int \<rightharpoonup> doc) \<Rightarrow> (int \<rightharpoonup> doc)" where
  "store_docs docs documents = fold (\<lambda>d m. m(doc_document_id d \<mapsto> d)) docs documents"

definition load_documents :: "listing \<Rightarrow> ids_by_type \<Rightarrow> string option \<Rightarrow> (int \<rightharpoonup> doc)" where
  "load_documents gd documents_to_load lang =
     fold (\<lambda>(document_type, document_ids) documents.
             store_docs (gd document_ids lang document_type) documents)
          documents_to_load Map.empty"

subsection \<open>Building the response\<close>

text \<open>\<open>'{}'.format(n)\<close> for an integer: decimal digits, a minus sign when negative.\<close>

definition digit_char :: "nat \<Rightarrow> char" where
  "digit_char d = ''0123456789'' ! d"

fun str_nat :: "nat \<Rightarrow> string" where
  "str_nat n = (if n < 10 then [digit_char n] else str_nat (n div 10) @ [digit_char (n mod 10)])"

declare str_nat.simps [simp del]

definition str_int :: "int \<Rightarrow> string" where
  "str_int i = (if i < 0 then CHR ''-'' # str_nat (nat (- i)) else str_nat (nat i))"

text \<open>\<open>documents[k]\<close> raises on a missing key.\<close>

definition getitem :: "(int \<rightharpoonup> doc) \<Rightarrow> int \<Rightarrow> error + doc" where
  "getitem documents k = (case documents k of None \<Rightarrow> Inl KeyError | Some d \<Rightarrow> Inr d)"

text \<open>\<open>documents[c.image1_id] if c.image1_id and documents.get(c.image1_id) else None\<close>\<close>

definition image_slot :: "(int \<rightharpoonup> doc) \<Rightarrow> int option \<Rightarrow> doc option" where
  "image_slot documents image_id =
     (case image_id of
        None \<Rightarrow> None
      | Some i \<Rightarrow> if i \<noteq> 0 then documents i else None)"

definition feed_entry ::
  "(timestamp \<Rightarrow> string) \<Rightarrow> (int \<rightharpoonup> doc) \<Rightarrow> DocumentChange \<Rightarrow> error + FeedEntry" where
  "feed_entry isoformat documents c =
     bind (getitem documents (user_id c)) (\<lambda>u.
     bind (getitem documents (document_id c)) (\<lambda>d.
       Inr \<lparr> entry_id = change_id c,
             entry_time = isoformat (time c),
             entry_user = u,
             participants =
               List.map_filter (\<lambda>uid. if uid \<noteq> user_id c then documents uid else None)
                 (user_ids c),
             entry_change_type = change_type c,
             entry_document = d,
             image1 = image_slot documents (image1_id c),
             image2 = image_slot documents (image2_id c),
             image3 = image_slot documents (image3_id c),
             entry_more_images = more_images c \<rparr>))"

text \<open>The list of entries is built from left to right and stops at the first exception.\<close>

fun collect :: "(error + 'a) list \<Rightarrow> error + 'a list" where
  "collect [] = Inr []"
| "collect (r # rs) = bind r (\<lambda>v. bind (collect rs) (\<lambda>vs. Inr (v # vs)))"

text \<open>
  \<open>documents.get(c.user_id) and documents.get(c.document_id)\<close>: a document is a dict with
  the key \<open>'document_id'\<close>, so it is true whenever it is there.
\<close>

definition loaded :: "(int \<rightharpoonup> doc) \<Rightarrow> DocumentChange \<Rightarrow> bool" where
  "loaded documents c = (documents (user_id c) \<noteq> None \<and> documents (document_id c) \<noteq> None)"

definition format_token :: "(timestamp \<Rightarrow> string) \<Rightarrow> DocumentChange \<Rightarrow> string" where
  "format_token isoformat last_change =
     str_int (change_id last_change) @ '','' @ isoformat (time last_change)"

definition load_feed ::
  "(timestamp \<Rightarrow> string) \<Rightarrow> listing \<Rightarrow> DocumentChange list \<Rightarrow> string option
     \<Rightarrow> error + FeedResponse" where
  "load_feed isoformat gd changes lang =
     (if changes = [] then Inr \<lparr> feed = [], pagination_token = None \<rparr>
      else
        let documents_to_load = get_documents_to_load changes;
            documents = load_documents gd documents_to_load lang;
            changes = filter (loaded documents) changes
        in if changes = [] then Inr \<lparr> feed = [], pagination_token = None \<rparr>
           else
             let last_change = last changes;
                 pagination_token = format_token isoformat last_change
             in bind (collect (map (feed_entry isoformat documents) changes)) (\<lambda>entries.
                  Inr \<lparr> feed = entries, pagination_token = Some pagination_token \<rparr>))"

subsection \<open>The three views\<close>

definition FeedRest_get ::
  "(timestamp \<Rightarrow> string) \<Rightarrow> listing \<Rightarrow> database \<Rightarrow> request \<Rightarrow> error + FeedResponse" where
  "FeedRest_get isoformat gd db req =
     (case get_params req of (lang, token_id, token_time, limit) \<Rightarrow>
        bind (get_changes_of_feed db token_id token_time limit None) (\<lambda>changes.
          load_feed isoformat gd changes lang))"

text \<open>
  Modelled from the spec: \<open>restricted_view\<close> (views/__init__.py) is not among the sources;
  the personal feed is "auth required", so a request without an authenticated user is
  refused before the view runs.
\<close>

definition PersonalFeedRest_get ::
  "(timestamp \<Rightarrow> string) \<Rightarrow> listing \<Rightarrow> database \<Rightarrow> request \<Rightarrow> error + FeedResponse" where
  "PersonalFeedRest_get isoformat gd db req =
     (case authenticated_userid req of
        None \<Rightarrow> Inl HTTPForbidden
      | Some uid \<Rightarrow>
          (case get_params req of (lang, token_id, token_time, limit) \<Rightarrow>
             bind (get_changes_of_personal_feed db uid token_id token_time limit) (\<lambda>changes.
               load_feed isoformat gd changes lang)))"

definition ProfileFeedRest_get ::
  "(timestamp \<Rightarrow> string) \<Rightarrow> listing \<Rightarrow> database \<Rightarrow> request \<Rightarrow> error + FeedResponse" where
  "ProfileFeedRest_get isoformat gd db req =
     (case get_params req of (lang, token_id, token_time, limit) \<Rightarrow>
        let requested_user_id = validated_u req;
            requested_user =
              find (\<lambda>u. User_id u = requested_user_id \<and> email_validated u) (users db)
        in (case requested_user of
              None \<Rightarrow> Inl HTTPNotFound
            | Some ru \<Rightarrow>
                (if is_profile_public ru \<or> has_permission_authenticated req then
                   bind (get_changes_of_profile_feed db requested_user_id token_id token_time limit)
                     (\<lambda>changes. load_feed isoformat gd changes lang)
                 else Inl HTTPForbidden)))"

subsection \<open>Reading a token back\<close>

text \<open>
  Modelled from the spec: \<open>validate_token_pagination\<close> (views/validation.py) is not among
  the sources. The spec gives the token as \<open>"{change_id},{ISO-8601 time}"\<close>, decoded to
  \<open>(change_id, time)\<close>, and rejected when the id is not numeric or the time cannot be
  parsed. The parser of the time is a parameter, as its printer is.
\<close>

definition digit_val :: "char \<Rightarrow> nat option" where
  "digit_val c =
     map_of [(CHR ''0'', 0), (CHR ''1'', 1), (CHR ''2'', 2), (CHR ''3'', 3), (CHR ''4'', 4),
             (CHR ''5'', 5), (CHR ''6'', 6), (CHR ''7'', 7), (CHR ''8'', 8), (CHR ''9'', 9)] c"

fun parse_digits :: "nat \<Rightarrow> string \<Rightarrow> nat option" where
  "parse_digits acc [] = Some acc"
| "parse_digits acc (c # cs) =
     (case digit_val c of None \<Rightarrow> None | Some d \<Rightarrow> parse_digits (10 * acc + d) cs)"

definition parse_nat :: "string \<Rightarrow> nat option" where
  "parse_nat s = (if s = [] then None else parse_digits 0 s)"

definition parse_int :: "string \<Rightarrow> int option" where
  "parse_int s =
     (case s of
        [] \<Rightarrow> None
      | c # cs \<Rightarrow>
          if c = CHR ''-'' then map_option (\<lambda>n. - int n) (parse_nat cs)
          else map_option int (parse_nat s))"

definition validate_token_pagination ::
  "(string \<Rightarrow> timestamp option) \<Rightarrow> string option \<Rightarrow> error + (int option \<times> timestamp option)" where
  "validate_token_pagination parse_time token =
     (case token of
        None \<Rightarrow> Inr (None, None)
      | Some s \<Rightarrow>
          if CHR '','' \<notin> set s then Inl HTTPBadRequest
          else
            (case (parse_int (takeWhile (\<lambda>c. c \<noteq> CHR '','') s),
                   parse_time (drop 1 (dropWhile (\<lambda>c. c \<noteq> CHR '','') s))) of
               (Some i, Some t) \<Rightarrow> Inr (Some i, Some t)
             | _ \<Rightarrow> Inl HTTPBadRequest))"

text \<open>The request that carries a token: its validated fields are the decoded token.\<close>

definition with_token ::
  "(string \<Rightarrow> timestamp option) \<Rightarrow> request \<Rightarrow> string option \<Rightarrow> error + request" where
  "with_token parse_time req token =
     bind (validate_token_pagination parse_time token) (\<lambda>(i, t).
       Inr (req\<lparr> validated_token_id := i, validated_token_time := t \<rparr>))"

subsection \<open>Auxiliary notions for the statements\<close>

text \<open>The id \<open>i\<close> is among the ids collected under the type \<open>ty\<close>.\<close>

definition requested :: "ids_by_type \<Rightarrow> string \<Rightarrow> int \<Rightarrow> bool" where
  "requested m ty i = list_ex (\<lambda>(k, ids). k = ty \<and> i \<in> set ids) m"

text \<open>The rows that a query with the given extra filter ranges over, in canonical order.\<close>

definition matching_changes :: "database \<Rightarrow> condition option \<Rightarrow> DocumentChange list" where
  "matching_changes db extra_filter =
     (case extra_filter of
        None \<Rightarrow> ordered_changes db
      | Some f \<Rightarrow> filter (holds f) (ordered_changes db))"

text \<open>The limit that \<open>get_params\<close> hands to the query.\<close>

definition effective_limit :: "request \<Rightarrow> int" where
  "effective_limit req = (case get_params req of (lang, token_id, token_time, limit) \<Rightarrow> limit)"



text \<open>
  The composition as the spec words it in its testable properties: the area filter or the
  activity filter matches.
\<close>

definition spec_composition :: "int list \<Rightarrow> string list \<Rightarrow> DocumentChange \<Rightarrow> bool" where
  "spec_composition areas acts c = (overlap (area_ids c) areas \<or> overlap (activities c) acts)"

subsection \<open>Sample data\<close>

text \<open>A document listing that finds every id, and one that misses the given ids.\<close>

definition view :: "string \<Rightarrow> int \<Rightarrow> doc" where
  "view ty i = \<lparr> doc_document_id = i, doc_type = ty, doc_body = [] \<rparr>"

definition listing_all :: listing where
  "listing_all ids lang ty = map (view ty) ids"

definition listing_without :: "int list \<Rightarrow> listing" where
  "listing_without missing ids lang ty = map (view ty) (filter (\<lambda>i. i \<notin> set missing) ids)"

text \<open>A change of an outing by one user, without areas, activities or images.\<close>

definition change :: "int \<Rightarrow> timestamp \<Rightarrow> int \<Rightarrow> int \<Rightarrow> DocumentChange" where
  "change cid t uid did =
     \<lparr> change_id = cid, time = t, user_id = uid, user_ids = [uid], document_id = did,
       document_type = ''o'', change_type = ''created'', area_ids = [], activities = [],
       image1_id = None, image2_id = None, image3_id = None, more_images = False \<rparr>"

definition log_only :: "DocumentChange list \<Rightarrow> database" where
  "log_only cs = \<lparr> users = [], followed_users = [], filter_areas = [], document_changes = cs \<rparr>"

definition anonymous_request :: "int option \<Rightarrow> request" where
  "anonymous_request l =
     \<lparr> validated_lang = None, validated_token_id = None, validated_token_time = None,
       validated_limit = l, validated_u = 0, authenticated_userid = None,
       has_permission_authenticated = False \<rparr>"

text \<open>
  A client of the global feed: a request for a page of \<open>k\<close> entries in the language
  \<open>lang\<close>; the ids of the entries of one page; and the ids of the entries of two pages, the
  second requested with the token of the first response.
\<close>

definition page_request :: "string option \<Rightarrow> int \<Rightarrow> request" where
  "page_request lang k = (anonymous_request (Some k)) \<lparr> validated_lang := lang \<rparr>"

definition single_page ::
  "(timestamp \<Rightarrow> string) \<Rightarrow> listing \<Rightarrow> database \<Rightarrow> string option \<Rightarrow> int \<Rightarrow> error + int list" where
  "single_page isoformat gd db lang k =
     bind (FeedRest_get isoformat gd db (page_request lang k)) (\<lambda>r.
       Inr (map entry_id (feed r)))"

definition two_pages ::
  "(string \<Rightarrow> timestamp option) \<Rightarrow> (timestamp \<Rightarrow> string) \<Rightarrow> listing \<Rightarrow> database
     \<Rightarrow> string option \<Rightarrow> int \<Rightarrow> int \<Rightarrow> error + int list" where
  "two_pages parse_time isoformat gd db lang k1 k2 =
     bind (FeedRest_get isoformat gd db (page_request lang k1)) (\<lambda>r1.
     bind (with_token parse_time (page_request lang k2) (pagination_token r1)) (\<lambda>req2.
     bind (FeedRest_get isoformat gd db req2) (\<lambda>r2.
       Inr (map entry_id (feed r1) @ map entry_id (feed r2)))))"

text \<open>Three changes, two of them at the same time.\<close>

definition tied_log :: database where
  "tied_log = log_only [change 2 1 1 100, change 3 5 1 101, change 4 5 1 102]"

text \<open>Sixty changes, one at each of the times 1 to 60.\<close>

definition numbered_change :: "nat \<Rightarrow> DocumentChange" where
  "numbered_change n = change (int n) (int n) 1 100"

definition sixty_log :: database where
  "sixty_log = log_only (map numbered_change [1..<61])"

text \<open>The two changes of the scenario of the spec, in the order they were written.\<close>

definition scenario :: "timestamp \<Rightarrow> timestamp \<Rightarrow> database" where
  "scenario T1 T2 = log_only [change 9 T1 1 101, change 10 T2 1 100]"


text \<open>A user with a validated email, a public profile and the given feed preferences.\<close>

definition member :: "int \<Rightarrow> bool \<Rightarrow> string list \<Rightarrow> User" where
  "member uid followed_only acts =
     \<lparr> User_id = uid, email_validated = True, is_profile_public = True,
       feed_followed_only = followed_only, feed_filter_activities = acts \<rparr>"

text \<open>
  Four changes: hiking in area 7 and ski touring in area 7 by user 5, ski touring in area 8
  by user 6, hiking in area 9 by user 2.
\<close>

definition sample_changes :: "DocumentChange list" where
  "sample_changes =
     [(change 1 1 5 100) \<lparr> area_ids := [7], activities := [''hiking''] \<rparr>,
      (change 2 2 5 101) \<lparr> area_ids := [7], activities := [''skitouring''] \<rparr>,
      (change 3 3 6 102) \<lparr> area_ids := [8], activities := [''skitouring''] \<rparr>,
      (change 4 4 2 103) \<lparr> area_ids := [9], activities := [''hiking''] \<rparr>]"

definition feed_db :: "User \<Rightarrow> (int \<times> int) list \<Rightarrow> (int \<times> int) list \<Rightarrow> database" where
  "feed_db u follows areas =
     \<lparr> users = [u], followed_users = follows, filter_areas = areas,
       document_changes = sample_changes \<rparr>"

text \<open>An unauthenticated request for the profile feed of the user \<open>u\<close>.\<close>

definition profile_request :: "int \<Rightarrow> request" where
  "profile_request u = (anonymous_request None) \<lparr> validated_u := u \<rparr>"

section \<open>Properties\<close>

subsection \<open>Order of the log and resumption\<close>

lemma bind_Inl [simp]: "bind (Inl e) f = Inl e"
  by (simp add: bind_def)

lemma bind_Inr [simp]: "bind (Inr v) f = f v"
  by (simp add: bind_def)

lemma less_order_key: "order_key l < order_key c \<longleftrightarrow> pagination_filter (change_id l) (time l) c"
  by (auto simp: order_key_def pagination_filter_def less_prod_def')

lemma filter_greater_strict:
  "sorted_wrt (<) (map k xs) \<Longrightarrow> i < length xs \<Longrightarrow>
     filter (\<lambda>c. k (xs ! i) < k c) xs = drop (Suc i) (xs :: 'a list)"
  for k :: "'a \<Rightarrow> 'b::linorder"
proof (induction xs arbitrary: i)
  case Nil
  then show ?case by simp
next
  case (Cons x xs)
  show ?case
  proof (cases i)
    case 0
    have "\<forall>c\<in>set xs. k x < k c" using Cons.prems(1) by simp
    then have "filter (\<lambda>c. k x < k c) xs = xs" by (simp add: filter_id_conv)
    then show ?thesis using 0 by simp
  next
    case (Suc j)
    have j: "j < length xs" using Cons.prems(2) Suc by simp
    have "k x < k (xs ! j)" using Cons.prems(1) j by simp
    then have "\<not> k (xs ! j) < k x" by simp
    moreover have "filter (\<lambda>c. k (xs ! j) < k c) xs = drop (Suc j) xs"
      using Cons.IH [OF _ j] Cons.prems(1) by simp
    ultimately show ?thesis using Suc by simp
  qed
qed

lemma strict_sorted_keys:
  assumes "distinct (map (\<lambda>c. (time c, change_id c)) (document_changes db))"
  shows "sorted_wrt (<) (map order_key (ordered_changes db))"
proof -
  have inj: "inj_on order_key (set (document_changes db))"
    using assms by (auto simp: distinct_map inj_on_def order_key_def)
  have "distinct (document_changes db)" using assms by (simp add: distinct_map)
  then have "distinct (map order_key (ordered_changes db))"
    using inj by (simp add: distinct_map ordered_changes_def)
  moreover have "sorted (map order_key (ordered_changes db))"
    by (simp add: ordered_changes_def)
  ultimately show ?thesis by (simp add: strict_sorted_iff)
qed

lemma last_take: "0 < n \<Longrightarrow> xs \<noteq> [] \<Longrightarrow> last (take n xs) = xs ! (min n (length xs) - 1)"
  by (simp add: last_conv_nth min_def)

lemma second_page:
  assumes s: "sorted_wrt (<) (map order_key xs)" and n: "take n xs \<noteq> []"
  shows "filter (pagination_filter (change_id (last (take n xs))) (time (last (take n xs)))) xs
           = drop n xs"
proof -
  have n0: "0 < n" and xs: "xs \<noteq> []" using n by auto
  let ?i = "min n (length xs) - 1"
  have i: "?i < length xs" using n0 xs by (cases xs) (auto simp: min_def)
  have l: "last (take n xs) = xs ! ?i" using last_take [OF n0 xs] .
  have "filter (\<lambda>c. order_key (xs ! ?i) < order_key c) xs = drop (Suc ?i) xs"
    using filter_greater_strict [OF s i] .
  moreover have "drop (Suc ?i) xs = drop n xs" using n0 xs by (auto simp: min_def)
  ultimately show ?thesis by (simp add: l less_order_key)
qed


subsection \<open>Every id of a page is requested\<close>

lemma requested_Nil [simp]: "\<not> requested [] ty i"
  by (simp add: requested_def)

lemma requested_Cons [simp]:
  "requested ((k, ids) # m) ty i \<longleftrightarrow> (k = ty \<and> i \<in> set ids) \<or> requested m ty i"
  by (auto simp: requested_def)

lemma requested_append [simp]:
  "requested (m @ m') ty i \<longleftrightarrow> requested m ty i \<or> requested m' ty i"
  by (auto simp: requested_def)

lemma requested_iff: "requested m ty i \<longleftrightarrow> (\<exists>ids. (ty, ids) \<in> set m \<and> i \<in> set ids)"
  by (auto simp: requested_def list_ex_iff)

lemma requested_map_insert:
  "requested (map (\<lambda>(k, ids). if k = ty then (k, List.insert i ids) else (k, ids)) m) ty' i'
     \<longleftrightarrow> requested m ty' i' \<or> (ty' = ty \<and> i' = i \<and> ty \<in> fst ` set m)"
proof (induction m)
  case Nil
  then show ?case by simp
next
  case (Cons p m)
  obtain k ids where p: "p = (k, ids)" by (cases p)
  show ?case unfolding p using Cons.IH by (cases "k = ty") auto
qed

lemma requested_add_id:
  "requested (add_id ty i m) ty' i' \<longleftrightarrow> (ty' = ty \<and> i' = i) \<or> requested m ty' i'"
proof (cases "map_of m ty")
  case None
  then show ?thesis by (auto simp: add_id_def)
next
  case (Some ids0)
  then have "(ty, ids0) \<in> set m" by (rule map_of_SomeD)
  then have "ty \<in> fst ` set m" by force
  then show ?thesis using Some by (auto simp: add_id_def requested_map_insert)
qed

lemma requested_fold_add_id:
  "requested (fold (add_id ty) is m) ty' i' \<longleftrightarrow> (ty' = ty \<and> i' \<in> set is) \<or> requested m ty' i'"
  by (induction "is" arbitrary: m) (auto simp: requested_add_id)

lemma requested_add_image_mono: "requested m ty i \<Longrightarrow> requested (add_image im m) ty i"
  by (auto simp: add_image_def requested_add_id split: option.splits)

lemma requested_add_change_mono: "requested m ty i \<Longrightarrow> requested (add_change c m) ty i"
  by (simp add: add_change_def Let_def requested_add_image_mono requested_fold_add_id requested_add_id)

lemma requested_add_change_ids:
  "requested (add_change c m) (document_type c) (document_id c)"
  "requested (add_change c m) USERPROFILE_TYPE (user_id c)"
  by (simp_all add: add_change_def Let_def requested_add_image_mono requested_fold_add_id requested_add_id)

lemma requested_fold_mono: "requested m ty i \<Longrightarrow> requested (fold add_change cs m) ty i"
  by (induction cs arbitrary: m) (auto simp: requested_add_change_mono)

lemma requested_get_documents_to_load:
  assumes "c \<in> set cs"
  shows "requested (get_documents_to_load cs) (document_type c) (document_id c)"
    and "requested (get_documents_to_load cs) USERPROFILE_TYPE (user_id c)"
proof -
  have "\<And>m. requested (fold add_change cs m) (document_type c) (document_id c)
         \<and> requested (fold add_change cs m) USERPROFILE_TYPE (user_id c)"
    using assms
  proof (induction cs)
    case Nil then show ?case by simp
  next
    case (Cons a cs)
    show ?case
    proof (cases "c = a")
      case True
      then show ?thesis by (simp add: requested_fold_mono requested_add_change_ids)
    next
      case False
      then show ?thesis using Cons by simp
    qed
  qed
  then show "requested (get_documents_to_load cs) (document_type c) (document_id c)"
    and "requested (get_documents_to_load cs) USERPROFILE_TYPE (user_id c)"
    by (simp_all add: get_documents_to_load_def)
qed

lemma dom_store_docs: "dom (store_docs ds m) = dom m \<union> doc_document_id ` set ds"
  unfolding store_docs_def by (induction ds arbitrary: m) auto

lemma dom_fold_store:
  "dom (fold (\<lambda>(ty, ids) documents. store_docs (gd ids lang ty) documents) m d)
     = dom d \<union> (\<Union>(ty, ids) \<in> set m. doc_document_id ` set (gd ids lang ty))"
proof (induction m arbitrary: d)
  case Nil
  then show ?case by simp
next
  case (Cons p m)
  obtain ty ids where p: "p = (ty, ids)" by (cases p)
  show ?case unfolding p by (simp add: Cons.IH dom_store_docs Un_assoc)
qed

lemma dom_load_documents:
  "dom (load_documents gd m lang) = (\<Union>(ty, ids) \<in> set m. doc_document_id ` set (gd ids lang ty))"
  by (simp add: load_documents_def dom_fold_store)

lemma requested_loaded:
  assumes "\<forall>ids ty. set ids \<subseteq> doc_document_id ` set (gd ids lang ty)" and "requested m ty i"
  shows "load_documents gd m lang i \<noteq> None"
proof -
  obtain ids where m: "(ty, ids) \<in> set m" and i: "i \<in> set ids"
    using assms(2) by (auto simp: requested_iff)
  have "i \<in> doc_document_id ` set (gd ids lang ty)"
    using assms(1) i by auto
  then have "i \<in> dom (load_documents gd m lang)"
    using m by (auto simp: dom_load_documents)
  then show ?thesis by auto
qed

lemma complete_all_loaded:
  assumes "\<forall>ids ty. set ids \<subseteq> doc_document_id ` set (gd ids lang ty)"
  shows "filter (loaded (load_documents gd (get_documents_to_load cs) lang)) cs = cs"
proof -
  have "loaded (load_documents gd (get_documents_to_load cs) lang) c" if "c \<in> set cs" for c
    unfolding loaded_def
    using requested_loaded [where gd = gd and lang = lang] assms
      requested_get_documents_to_load [OF that] by blast
  then show ?thesis by (simp add: filter_id_conv)
qed


subsection \<open>The response of a page\<close>

lemma collect_entries:
  "\<forall>c\<in>set cs. loaded documents c \<Longrightarrow>
     \<exists>es. collect (map (feed_entry isoformat documents) cs) = Inr es
        \<and> list_all2 (\<lambda>c e. feed_entry isoformat documents c = Inr e) cs es"
proof (induction cs)
  case Nil
  then show ?case by simp
next
  case (Cons c cs)
  then obtain es where es: "collect (map (feed_entry isoformat documents) cs) = Inr es"
      "list_all2 (\<lambda>c e. feed_entry isoformat documents c = Inr e) cs es"
    by auto
  have "loaded documents c" using Cons.prems by simp
  then obtain e where e: "feed_entry isoformat documents c = Inr e"
    by (auto simp: loaded_def feed_entry_def getitem_def)
  show ?case using es e by simp
qed

lemma load_feed_result:
  fixes gd :: listing
  defines "documents \<equiv> \<lambda>cs lang. load_documents gd (get_documents_to_load cs) lang"
  shows "\<exists>es. load_feed isoformat gd cs lang =
            Inr \<lparr> feed = es,
                  pagination_token =
                    (if filter (loaded (documents cs lang)) cs = [] then None
                     else Some (format_token isoformat (last (filter (loaded (documents cs lang)) cs)))) \<rparr>
          \<and> list_all2 (\<lambda>c e. feed_entry isoformat (documents cs lang) c = Inr e)
                (filter (loaded (documents cs lang)) cs) es"
proof (cases "filter (loaded (documents cs lang)) cs = []")
  case True
  then show ?thesis by (auto simp: load_feed_def documents_def Let_def)
next
  case False
  then have cs: "cs \<noteq> []" by auto
  have "\<forall>c\<in>set (filter (loaded (documents cs lang)) cs). loaded (documents cs lang) c" by simp
  from collect_entries [OF this, of isoformat] obtain es where
    es: "collect (map (feed_entry isoformat (documents cs lang)) (filter (loaded (documents cs lang)) cs)) = Inr es"
      "list_all2 (\<lambda>c e. feed_entry isoformat (documents cs lang) c = Inr e) (filter (loaded (documents cs lang)) cs) es"
    by blast
  show ?thesis using False cs es unfolding documents_def load_feed_def Let_def by simp
qed

lemma feed_entry_id: "feed_entry isoformat documents c = Inr e \<Longrightarrow> entry_id e = change_id c"
  by (auto simp: feed_entry_def bind_def split: sum.splits)

subsection \<open>A token is read back as it was written\<close>

lemma digit_val_digit_char: "d < 10 \<Longrightarrow> digit_val (digit_char d) = Some d"
proof -
  assume "d < 10"
  then have "d \<in> {0, 1, 2, 3, 4, 5, 6, 7, 8, 9}" by auto
  then show ?thesis by (auto simp: digit_val_def digit_char_def)
qed

lemma digit_char_not_special: "d < 10 \<Longrightarrow> digit_char d \<noteq> CHR '','' \<and> digit_char d \<noteq> CHR ''-''"
proof -
  assume "d < 10"
  then have "d \<in> {0, 1, 2, 3, 4, 5, 6, 7, 8, 9}" by auto
  then show ?thesis by (auto simp: digit_char_def)
qed

lemma parse_digits_append:
  "parse_digits acc (xs @ ys) =
     (case parse_digits acc xs of None \<Rightarrow> None | Some a \<Rightarrow> parse_digits a ys)"
  by (induction xs arbitrary: acc) (auto split: option.splits)

lemma parse_digits_str_nat: "parse_digits 0 (str_nat n) = Some n"
proof (induction n rule: str_nat.induct)
  case (1 n)
  show ?case
  proof (cases "n < 10")
    case True
    then show ?thesis by (subst str_nat.simps) (simp add: digit_val_digit_char)
  next
    case False
    then have "parse_digits 0 (str_nat (n div 10)) = Some (n div 10)" using 1 by simp
    then show ?thesis using False
      by (subst str_nat.simps) (simp add: parse_digits_append digit_val_digit_char)
  qed
qed

lemma str_nat_chars: "c \<in> set (str_nat n) \<Longrightarrow> c \<noteq> CHR '','' \<and> c \<noteq> CHR ''-''"
proof (induction n rule: str_nat.induct)
  case (1 n)
  show ?case
  proof (cases "n < 10")
    case True
    then show ?thesis using "1.prems" digit_char_not_special [of n]
      by (subst (asm) str_nat.simps) simp
  next
    case False
    then show ?thesis using 1 digit_char_not_special [of "n mod 10"]
      by (subst (asm) (2) str_nat.simps) auto
  qed
qed

lemma str_nat_not_Nil: "str_nat n \<noteq> []"
  by (subst str_nat.simps) simp

lemma parse_nat_str_nat: "parse_nat (str_nat n) = Some n"
  by (simp add: parse_nat_def str_nat_not_Nil parse_digits_str_nat)

lemma parse_int_str_int: "parse_int (str_int i) = Some i"
proof (cases "i < 0")
  case True
  then show ?thesis by (simp add: parse_int_def str_int_def parse_nat_str_nat)
next
  case False
  obtain c cs where s: "str_nat (nat i) = c # cs"
    using str_nat_not_Nil [of "nat i"] by (cases "str_nat (nat i)") auto
  have "c \<noteq> CHR ''-''" using str_nat_chars [of c "nat i"] s by simp
  then show ?thesis using False s parse_nat_str_nat [of "nat i"]
    by (simp add: parse_int_def str_int_def)
qed

lemma str_int_no_comma: "CHR '','' \<notin> set (str_int i)"
  using str_nat_chars [of "CHR '',''"] by (auto simp: str_int_def)

lemma validate_format_token:
  assumes "parse_time (isoformat (time c)) = Some (time c)"
  shows "validate_token_pagination parse_time (Some (format_token isoformat c))
           = Inr (Some (change_id c), Some (time c))"
proof -
  let ?s = "str_int (change_id c)"
  have nc: "\<forall>x\<in>set ?s. x \<noteq> CHR '',''"
    using str_int_no_comma [of "change_id c"] by auto
  have t: "takeWhile (\<lambda>x. x \<noteq> CHR '','') (?s @ CHR '','' # isoformat (time c)) = ?s"
    using nc by (simp add: takeWhile_tail)
  have d: "dropWhile (\<lambda>x. x \<noteq> CHR '','') (?s @ CHR '','' # isoformat (time c))
             = CHR '','' # isoformat (time c)"
    using nc by (simp add: dropWhile_append2)
  show ?thesis
    using assms by (simp add: validate_token_pagination_def format_token_def t d parse_int_str_int)
qed


subsection \<open>Pages\<close>

lemma load_feed_complete:
  assumes "\<forall>ids ty. set ids \<subseteq> doc_document_id ` set (gd ids lang ty)"
  shows "\<exists>es. load_feed isoformat gd cs lang =
            Inr \<lparr> feed = es,
                  pagination_token =
                    (if cs = [] then None else Some (format_token isoformat (last cs))) \<rparr>
          \<and> map entry_id es = map change_id cs"
proof -
  let ?d = "load_documents gd (get_documents_to_load cs) lang"
  have all: "filter (loaded ?d) cs = cs"
    using complete_all_loaded [where gd = gd and lang = lang and cs = cs] assms by blast
  from load_feed_result [of isoformat gd cs lang] obtain es where
    r: "load_feed isoformat gd cs lang =
            Inr \<lparr> feed = es,
                  pagination_token =
                    (if cs = [] then None else Some (format_token isoformat (last cs))) \<rparr>"
    and l: "list_all2 (\<lambda>c e. feed_entry isoformat ?d c = Inr e) cs es"
    unfolding all by blast
  have "list_all2 (\<lambda>c e. change_id c = entry_id e) cs es"
    using l by (rule list_all2_mono) (simp add: feed_entry_id)
  then have "map change_id cs = map entry_id es"
    by (simp add: list.rel_map list.rel_eq [symmetric] list_all2_conv_all_nth nth_equalityI)
  then show ?thesis using r by auto
qed

lemma get_changes_first_matching:
  "0 \<le> k \<Longrightarrow> k \<le> MAX_BIGINT \<Longrightarrow>
     get_changes_of_feed db None None k extra_filter
       = Inr (take (nat k) (matching_changes db extra_filter))"
  by (simp add: get_changes_of_feed_def limit_all_def matching_changes_def split: option.splits)

lemma get_changes_next_matching:
  "0 \<le> k \<Longrightarrow> k \<le> MAX_BIGINT \<Longrightarrow>
     get_changes_of_feed db (Some i) (Some t) k extra_filter
       = Inr (take (nat k) (filter (pagination_filter i t) (matching_changes db extra_filter)))"
  by (auto simp: get_changes_of_feed_def limit_all_def matching_changes_def conj_commute
        split: option.splits intro: arg_cong [where f = "take (nat k)"] filter_cong)

lemma get_changes_first_page:
  "0 \<le> k \<Longrightarrow> k \<le> MAX_BIGINT \<Longrightarrow>
     get_changes_of_feed db None None k None = Inr (take (nat k) (ordered_changes db))"
  using get_changes_first_matching [of k db None] by (simp add: matching_changes_def)

lemma get_changes_next_page:
  "0 \<le> k \<Longrightarrow> k \<le> MAX_BIGINT \<Longrightarrow>
     get_changes_of_feed db (Some i) (Some t) k None
       = Inr (take (nat k) (filter (pagination_filter i t) (ordered_changes db)))"
  using get_changes_next_matching [of k db i t None] by (simp add: matching_changes_def)

lemma strict_sorted_matching:
  assumes "distinct (map (\<lambda>c. (time c, change_id c)) (document_changes db))"
  shows "sorted_wrt (<) (map order_key (matching_changes db extra_filter))"
proof -
  have "sorted_wrt (\<lambda>x y. order_key x < order_key y) (ordered_changes db)"
    using strict_sorted_keys [OF assms] by (simp add: sorted_wrt_map)
  then have "sorted_wrt (\<lambda>x y. order_key x < order_key y) (matching_changes db extra_filter)"
    by (simp add: matching_changes_def sorted_wrt_filter split: option.splits)
  then show ?thesis by (simp add: sorted_wrt_map)
qed

lemma two_fetches:
  assumes d: "distinct (map (\<lambda>c. (time c, change_id c)) (document_changes db))"
    and k1: "0 \<le> k1" and k2: "0 \<le> k2" and kb: "k1 + k2 \<le> MAX_BIGINT"
    and gd: "\<forall>ids ty. set ids \<subseteq> doc_document_id ` set (gd ids lang ty)"
    and pt: "\<forall>t. parse_time (isoformat t) = Some t"
  shows "\<exists>page1 r1 token_id token_time page2 r2 single r.
           get_changes_of_feed db None None k1 extra_filter = Inr page1
         \<and> load_feed isoformat gd page1 lang = Inr r1
         \<and> validate_token_pagination parse_time (pagination_token r1) = Inr (token_id, token_time)
         \<and> get_changes_of_feed db token_id token_time k2 extra_filter = Inr page2
         \<and> load_feed isoformat gd page2 lang = Inr r2
         \<and> get_changes_of_feed db None None (k1 + k2) extra_filter = Inr single
         \<and> load_feed isoformat gd single lang = Inr r
         \<and> page1 @ page2 = single
         \<and> distinct (page1 @ page2)
         \<and> single = take (nat (k1 + k2)) (matching_changes db extra_filter)
         \<and> map entry_id (feed r1) @ map entry_id (feed r2) = map entry_id (feed r)
         \<and> map entry_id (feed r) = map change_id single"
proof -
  let ?xs = "matching_changes db extra_filter"
  let ?tok = "\<lambda>cs. if cs = [] then None else Some (format_token isoformat (last cs))"
  have s: "sorted_wrt (<) (map order_key ?xs)" using strict_sorted_matching [OF d] .
  then have dx: "distinct ?xs" using strict_sorted_iff distinct_map by metis
  have b1: "k1 \<le> MAX_BIGINT" and b2: "k2 \<le> MAX_BIGINT" using k1 k2 kb by simp_all
  have page: "\<exists>r. load_feed isoformat gd cs lang = Inr r \<and> pagination_token r = ?tok cs
                \<and> map entry_id (feed r) = map change_id cs" for cs
    using load_feed_complete [where gd = gd and lang = lang and isoformat = isoformat and cs = cs] gd
    by force
  define page1 where "page1 = take (nat k1) ?xs"
  define single where "single = take (nat (k1 + k2)) ?xs"
  have g1: "get_changes_of_feed db None None k1 extra_filter = Inr page1"
    unfolding page1_def using k1 b1 by (rule get_changes_first_matching)
  have g: "get_changes_of_feed db None None (k1 + k2) extra_filter = Inr single"
    unfolding single_def using k1 k2 kb by (simp add: get_changes_first_matching)
  obtain r1 where l1: "load_feed isoformat gd page1 lang = Inr r1"
    and t1: "pagination_token r1 = ?tok page1"
    and e1: "map entry_id (feed r1) = map change_id page1"
    using page [of page1] by blast
  obtain r where l: "load_feed isoformat gd single lang = Inr r"
    and e: "map entry_id (feed r) = map change_id single"
    using page [of single] by blast
  have nat_add: "nat (k1 + k2) = nat k1 + nat k2" using k1 k2 by (simp add: nat_add_distrib)
  have split: "page1 @ take (nat k2) (drop (nat k1) ?xs) = single"
    by (simp add: page1_def single_def nat_add take_add)
  have "\<exists>token_id token_time page2.
          validate_token_pagination parse_time (pagination_token r1) = Inr (token_id, token_time)
        \<and> get_changes_of_feed db token_id token_time k2 extra_filter = Inr page2
        \<and> page1 @ page2 = single"
  proof (cases "page1 = []")
    case True
    have v: "validate_token_pagination parse_time (pagination_token r1) = Inr (None, None)"
      using True t1 by (simp add: validate_token_pagination_def)
    have g2: "get_changes_of_feed db None None k2 extra_filter = Inr (take (nat k2) ?xs)"
      using k2 b2 by (rule get_changes_first_matching)
    have "take (nat k2) ?xs = single"
    proof (cases "?xs = []")
      case True then show ?thesis by (simp add: single_def)
    next
      case False
      with \<open>page1 = []\<close> have "nat k1 = 0" unfolding page1_def by (cases ?xs) auto
      then show ?thesis by (simp add: single_def nat_add)
    qed
    then have "page1 @ take (nat k2) ?xs = single" using True by simp
    then show ?thesis using v g2 by blast
  next
    case False
    let ?l = "last page1"
    have v: "validate_token_pagination parse_time (pagination_token r1)
               = Inr (Some (change_id ?l), Some (time ?l))"
      using False t1 pt validate_format_token [of parse_time isoformat ?l] by simp
    have "filter (pagination_filter (change_id ?l) (time ?l)) ?xs = drop (nat k1) ?xs"
      using second_page [OF s] False unfolding page1_def by blast
    then have "get_changes_of_feed db (Some (change_id ?l)) (Some (time ?l)) k2 extra_filter
                 = Inr (take (nat k2) (drop (nat k1) ?xs))"
      using k2 b2 by (simp add: get_changes_next_matching)
    then show ?thesis using v split by blast
  qed
  then obtain token_id token_time page2 where
    v: "validate_token_pagination parse_time (pagination_token r1) = Inr (token_id, token_time)"
    and g2: "get_changes_of_feed db token_id token_time k2 extra_filter = Inr page2"
    and cat: "page1 @ page2 = single"
    by blast
  obtain r2 where l2: "load_feed isoformat gd page2 lang = Inr r2"
    and e2: "map entry_id (feed r2) = map change_id page2"
    using page [of page2] by blast
  have dist: "distinct (page1 @ page2)"
    unfolding cat single_def using dx by (rule distinct_take)
  have ids: "map entry_id (feed r1) @ map entry_id (feed r2) = map entry_id (feed r)"
    using e1 e2 e cat by (metis map_append)
  have sg: "single = take (nat (k1 + k2)) ?xs" by (simp add: single_def)
  show ?thesis using g1 l1 v g2 l2 g l cat dist sg ids e by blast
qed

lemma FeedRest_get_page:
  assumes "validated_limit req = Some k" and "k \<le> 50"
  shows "FeedRest_get isoformat gd db req
           = bind (get_changes_of_feed db (validated_token_id req) (validated_token_time req) k None)
               (\<lambda>changes. load_feed isoformat gd changes (validated_lang req))"
  using assms
  by (simp add: FeedRest_get_def get_params_def Let_def DEFAULT_PAGE_LIMIT_def MAX_PAGE_LIMIT_def)

lemma two_requests:
  assumes d: "distinct (map (\<lambda>c. (time c, change_id c)) (document_changes db))"
    and k1: "0 \<le> k1" and k2: "0 \<le> k2" and kb: "k1 + k2 \<le> 50"
    and gd: "\<forall>ids ty. set ids \<subseteq> doc_document_id ` set (gd ids lang ty)"
    and pt: "\<forall>t. parse_time (isoformat t) = Some t"
  shows "two_pages parse_time isoformat gd db lang k1 k2 = single_page isoformat gd db lang (k1 + k2)
       \<and> single_page isoformat gd db lang (k1 + k2)
           = Inr (map change_id (take (nat (k1 + k2)) (ordered_changes db)))"
proof -
  have "k1 + k2 \<le> MAX_BIGINT" using kb by (simp add: MAX_BIGINT_def)
  from two_fetches [OF d k1 k2 this, where extra_filter = None and gd = gd and lang = lang
      and parse_time = parse_time and isoformat = isoformat] gd pt
  obtain page1 r1 token_id token_time page2 r2 single r where
      f1: "get_changes_of_feed db None None k1 None = Inr page1"
      and f2: "load_feed isoformat gd page1 lang = Inr r1"
      and f3: "validate_token_pagination parse_time (pagination_token r1) = Inr (token_id, token_time)"
      and f4: "get_changes_of_feed db token_id token_time k2 None = Inr page2"
      and f5: "load_feed isoformat gd page2 lang = Inr r2"
      and f6: "get_changes_of_feed db None None (k1 + k2) None = Inr single"
      and f7: "load_feed isoformat gd single lang = Inr r"
      and f10: "single = take (nat (k1 + k2)) (matching_changes db None)"
      and f11: "map entry_id (feed r1) @ map entry_id (feed r2) = map entry_id (feed r)"
      and f12: "map entry_id (feed r) = map change_id single"
    by blast
  have b1: "k1 \<le> 50" and b2: "k2 \<le> 50" using k1 k2 kb by simp_all
  have p: "validated_limit (page_request lang k) = Some k"
      "validated_lang (page_request lang k) = lang"
      "validated_token_id (page_request lang k) = None"
      "validated_token_time (page_request lang k) = None" for k
    by (simp_all add: page_request_def anonymous_request_def)
  have v1: "FeedRest_get isoformat gd db (page_request lang k1) = Inr r1"
    using FeedRest_get_page [OF p(1) b1, where isoformat = isoformat and gd = gd and db = db] f1 f2
    by (simp add: p)
  have v: "FeedRest_get isoformat gd db (page_request lang (k1 + k2)) = Inr r"
    using FeedRest_get_page [OF p(1) kb, where isoformat = isoformat and gd = gd and db = db] f6 f7
    by (simp add: p)
  let ?req2 = "(page_request lang k2)
      \<lparr> validated_token_id := token_id, validated_token_time := token_time \<rparr>"
  have w: "with_token parse_time (page_request lang k2) (pagination_token r1) = Inr ?req2"
    using f3 by (simp add: with_token_def)
  have "validated_limit ?req2 = Some k2" by (simp add: p)
  from FeedRest_get_page [OF this b2, where isoformat = isoformat and gd = gd and db = db]
  have v2: "FeedRest_get isoformat gd db ?req2 = Inr r2"
    using f4 f5 by (simp add: p)
  have "two_pages parse_time isoformat gd db lang k1 k2
          = Inr (map entry_id (feed r1) @ map entry_id (feed r2))"
    by (simp add: two_pages_def v1 w v2)
  moreover have "single_page isoformat gd db lang (k1 + k2) = Inr (map entry_id (feed r))"
    by (simp add: single_page_def v)
  ultimately show ?thesis using f10 f11 f12 by (simp add: matching_changes_def)
qed

text \<open>
  C1 (amended). Let the changes of the log have pairwise distinct pairs of time and id,
  let the listing find every id it is asked for, let the time parser read back what the
  printer writes, and let \<open>k1\<close> and \<open>k2\<close> be limits that are not negative.

  On \<open>get_changes_of_feed\<close> and \<open>load_feed\<close>, with any extra filter, and as long as
  \<open>k1 + k2\<close> is a limit that the database accepts: fetch a first page with limit \<open>k1\<close>,
  decode the token of its response, and fetch a second page with limit \<open>k2\<close> from that
  token. The two pages, one after the other, are the page of a single fetch with limit
  \<open>k1 + k2\<close>: the first \<open>k1 + k2\<close> matching changes in canonical order, none twice and none
  left out, and the ids of the entries of the three responses agree with that.

  Through the view of the global feed, where \<open>get_params\<close> cuts every limit at 50, the same
  holds as long as \<open>k1 + k2\<close> is at most 50: the entries of two requests, the second with
  the token of the first response, are the entries of one request with limit \<open>k1 + k2\<close>,
  which are the first \<open>k1 + k2\<close> changes of the log in canonical order.
\<close>

theorem pagination_completeness:
  assumes "distinct (map (\<lambda>c. (time c, change_id c)) (document_changes db))"
    and "0 \<le> k1" and "0 \<le> k2"
    and "\<forall>ids ty. set ids \<subseteq> doc_document_id ` set (gd ids lang ty)"
    and "\<forall>t. parse_time (isoformat t) = Some t"
  shows "(k1 + k2 \<le> MAX_BIGINT \<longrightarrow>
          (\<exists>page1 r1 token_id token_time page2 r2 single r.
             get_changes_of_feed db None None k1 extra_filter = Inr page1
           \<and> load_feed isoformat gd page1 lang = Inr r1
           \<and> validate_token_pagination parse_time (pagination_token r1)
                = Inr (token_id, token_time)
           \<and> get_changes_of_feed db token_id token_time k2 extra_filter = Inr page2
           \<and> load_feed isoformat gd page2 lang = Inr r2
           \<and> get_changes_of_feed db None None (k1 + k2) extra_filter = Inr single
           \<and> load_feed isoformat gd single lang = Inr r
           \<and> page1 @ page2 = single
           \<and> distinct (page1 @ page2)
           \<and> single = take (nat (k1 + k2)) (matching_changes db extra_filter)
           \<and> map entry_id (feed r1) @ map entry_id (feed r2) = map entry_id (feed r)
           \<and> map entry_id (feed r) = map change_id single))
       \<and> (k1 + k2 \<le> MAX_PAGE_LIMIT \<longrightarrow>
            two_pages parse_time isoformat gd db lang k1 k2
              = single_page isoformat gd db lang (k1 + k2)
          \<and> single_page isoformat gd db lang (k1 + k2)
              = Inr (map change_id (take (nat (k1 + k2)) (ordered_changes db)))
          \<and> distinct (take (nat (k1 + k2)) (ordered_changes db)))"
proof (intro conjI impI)
  assume "k1 + k2 \<le> MAX_BIGINT"
  then show "\<exists>page1 r1 token_id token_time page2 r2 single r.
             get_changes_of_feed db None None k1 extra_filter = Inr page1
           \<and> load_feed isoformat gd page1 lang = Inr r1
           \<and> validate_token_pagination parse_time (pagination_token r1)
                = Inr (token_id, token_time)
           \<and> get_changes_of_feed db token_id token_time k2 extra_filter = Inr page2
           \<and> load_feed isoformat gd page2 lang = Inr r2
           \<and> get_changes_of_feed db None None (k1 + k2) extra_filter = Inr single
           \<and> load_feed isoformat gd single lang = Inr r
           \<and> page1 @ page2 = single
           \<and> distinct (page1 @ page2)
           \<and> single = take (nat (k1 + k2)) (matching_changes db extra_filter)
           \<and> map entry_id (feed r1) @ map entry_id (feed r2) = map entry_id (feed r)
           \<and> map entry_id (feed r) = map change_id single"
    using two_fetches [where db = db and ?k1.0 = k1 and ?k2.0 = k2 and gd = gd and lang = lang
        and parse_time = parse_time and isoformat = isoformat and extra_filter = extra_filter]
      assms
    by blast
next
  assume "k1 + k2 \<le> MAX_PAGE_LIMIT"
  then have b: "k1 + k2 \<le> 50" by (simp add: MAX_PAGE_LIMIT_def)
  have t: "two_pages parse_time isoformat gd db lang k1 k2
              = single_page isoformat gd db lang (k1 + k2)
       \<and> single_page isoformat gd db lang (k1 + k2)
           = Inr (map change_id (take (nat (k1 + k2)) (ordered_changes db)))"
    using two_requests [where db = db and ?k1.0 = k1 and ?k2.0 = k2 and gd = gd and lang = lang
        and parse_time = parse_time and isoformat = isoformat] assms b
    by blast
  show "two_pages parse_time isoformat gd db lang k1 k2
              = single_page isoformat gd db lang (k1 + k2)"
    using t by (rule conjunct1)
  show "single_page isoformat gd db lang (k1 + k2)
              = Inr (map change_id (take (nat (k1 + k2)) (ordered_changes db)))"
    using t by (rule conjunct2)
  have "sorted_wrt (<) (map order_key (ordered_changes db))"
    using strict_sorted_keys [OF assms(1)] .
  then have "distinct (ordered_changes db)" using strict_sorted_iff distinct_map by metis
  then show "distinct (take (nat (k1 + k2)) (ordered_changes db))" by (rule distinct_take)
qed

theorem pagination_completeness_witness:
  "distinct (map (\<lambda>c. (time c, change_id c)) (document_changes tied_log))
   \<and> (\<exists>page1 r1 token_id token_time page2 r2 single r.
           get_changes_of_feed tied_log None None 1 None = Inr page1
         \<and> load_feed str_int listing_all page1 None = Inr r1
         \<and> validate_token_pagination parse_int (pagination_token r1) = Inr (token_id, token_time)
         \<and> get_changes_of_feed tied_log token_id token_time 1 None = Inr page2
         \<and> load_feed str_int listing_all page2 None = Inr r2
         \<and> get_changes_of_feed tied_log None None 2 None = Inr single
         \<and> load_feed str_int listing_all single None = Inr r
         \<and> page1 @ page2 = single
         \<and> distinct (page1 @ page2)
         \<and> single = [change 3 5 1 101, change 4 5 1 102]
         \<and> map entry_id (feed r1) @ map entry_id (feed r2) = map entry_id (feed r)
         \<and> map entry_id (feed r) = [3, 4])
   \<and> two_pages parse_int str_int listing_all tied_log None 1 1 = Inr [3, 4]
   \<and> single_page str_int listing_all tied_log None 2 = Inr [3, 4]"
proof -
  have d: "distinct (map (\<lambda>c. (time c, change_id c)) (document_changes tied_log))"
    by (simp add: tied_log_def log_only_def change_def)
  have gd: "\<forall>ids ty. set ids \<subseteq> doc_document_id ` set (listing_all ids None ty)"
    by (simp add: listing_all_def view_def image_image)
  have pt: "\<forall>t. parse_int (str_int t) = Some t"
    by (simp add: parse_int_str_int)
  have o: "take 2 (ordered_changes tied_log) = [change 3 5 1 101, change 4 5 1 102]"
    by (simp add: ordered_changes_def tied_log_def log_only_def change_def order_key_def)
  have both: "((1::int) + 1 \<le> MAX_BIGINT \<longrightarrow>
          (\<exists>page1 r1 token_id token_time page2 r2 single r.
             get_changes_of_feed tied_log None None 1 None = Inr page1
           \<and> load_feed str_int listing_all page1 None = Inr r1
           \<and> validate_token_pagination parse_int (pagination_token r1)
                = Inr (token_id, token_time)
           \<and> get_changes_of_feed tied_log token_id token_time 1 None = Inr page2
           \<and> load_feed str_int listing_all page2 None = Inr r2
           \<and> get_changes_of_feed tied_log None None (1 + 1) None = Inr single
           \<and> load_feed str_int listing_all single None = Inr r
           \<and> page1 @ page2 = single
           \<and> distinct (page1 @ page2)
           \<and> single = take (nat (1 + 1)) (matching_changes tied_log None)
           \<and> map entry_id (feed r1) @ map entry_id (feed r2) = map entry_id (feed r)
           \<and> map entry_id (feed r) = map change_id single))
       \<and> ((1::int) + 1 \<le> MAX_PAGE_LIMIT \<longrightarrow>
            two_pages parse_int str_int listing_all tied_log None 1 1
              = single_page str_int listing_all tied_log None (1 + 1)
          \<and> single_page str_int listing_all tied_log None (1 + 1)
              = Inr (map change_id (take (nat (1 + 1)) (ordered_changes tied_log)))
          \<and> distinct (take (nat (1 + 1)) (ordered_changes tied_log)))"
    by (rule pagination_completeness [where parse_time = parse_int and isoformat = str_int])
       (simp_all add: d gd pt)
  have "(1::int) + 1 \<le> MAX_BIGINT" by (simp add: MAX_BIGINT_def)
  with both obtain page1 r1 token_id token_time page2 r2 single r where
      f1: "get_changes_of_feed tied_log None None 1 None = Inr page1"
      and f2: "load_feed str_int listing_all page1 None = Inr r1"
      and f3: "validate_token_pagination parse_int (pagination_token r1) = Inr (token_id, token_time)"
      and f4: "get_changes_of_feed tied_log token_id token_time 1 None = Inr page2"
      and f5: "load_feed str_int listing_all page2 None = Inr r2"
      and f6: "get_changes_of_feed tied_log None None (1 + 1) None = Inr single"
      and f7: "load_feed str_int listing_all single None = Inr r"
      and f8: "page1 @ page2 = single"
      and f9: "distinct (page1 @ page2)"
      and f10: "single = take (nat (1 + 1)) (matching_changes tied_log None)"
      and f11: "map entry_id (feed r1) @ map entry_id (feed r2) = map entry_id (feed r)"
      and f12: "map entry_id (feed r) = map change_id single"
    by blast
  have g6: "get_changes_of_feed tied_log None None 2 None = Inr single" using f6 by simp
  have g10: "single = [change 3 5 1 101, change 4 5 1 102]"
    using f10 o by (simp add: matching_changes_def)
  have g12: "map entry_id (feed r) = [3, 4]" using f12 g10 by (simp add: change_def)
  have "(1::int) + 1 \<le> MAX_PAGE_LIMIT" by (simp add: MAX_PAGE_LIMIT_def)
  with both have t: "two_pages parse_int str_int listing_all tied_log None 1 1
              = single_page str_int listing_all tied_log None (1 + 1)"
    and u: "single_page str_int listing_all tied_log None (1 + 1)
              = Inr (map change_id (take (nat (1 + 1)) (ordered_changes tied_log)))"
    by blast+
  have u': "single_page str_int listing_all tied_log None 2 = Inr [3, 4]"
    using u o by (simp add: change_def)
  have t': "two_pages parse_int str_int listing_all tied_log None 1 1 = Inr [3, 4]"
    using t u' by simp
  have ex: "\<exists>page1 r1 token_id token_time page2 r2 single r.
           get_changes_of_feed tied_log None None 1 None = Inr page1
         \<and> load_feed str_int listing_all page1 None = Inr r1
         \<and> validate_token_pagination parse_int (pagination_token r1) = Inr (token_id, token_time)
         \<and> get_changes_of_feed tied_log token_id token_time 1 None = Inr page2
         \<and> load_feed str_int listing_all page2 None = Inr r2
         \<and> get_changes_of_feed tied_log None None 2 None = Inr single
         \<and> load_feed str_int listing_all single None = Inr r
         \<and> page1 @ page2 = single
         \<and> distinct (page1 @ page2)
         \<and> single = [change 3 5 1 101, change 4 5 1 102]
         \<and> map entry_id (feed r1) @ map entry_id (feed r2) = map entry_id (feed r)
         \<and> map entry_id (feed r) = [3, 4]"
    using f1 f2 f3 f4 f5 g6 f7 f8 f9 g10 f11 g12
    by - ((rule exI)+, (rule conjI, assumption)+, assumption)
  show ?thesis using d ex t' u' by (intro conjI)
qed

theorem pagination_completeness_counterexample:
  "distinct (map order_key (document_changes sixty_log))
   \<and> map_sum id length (two_pages parse_int str_int listing_all sixty_log None 30 30) = Inr 60
   \<and> map_sum id length (single_page str_int listing_all sixty_log None (30 + 30)) = Inr 50
   \<and> get_changes_of_feed tied_log None None (2 ^ 62) None = Inr (ordered_changes tied_log)
   \<and> get_changes_of_feed tied_log None None (2 ^ 62 + 2 ^ 62) None = Inl DataError"
proof -
  have a: "distinct (map order_key (document_changes sixty_log))" by code_simp
  have b: "map_sum id length (two_pages parse_int str_int listing_all sixty_log None 30 30)
             = Inr 60"
    by code_simp
  have c: "map_sum id length (single_page str_int listing_all sixty_log None (30 + 30)) = Inr 50"
    by code_simp
  have l: "length (ordered_changes tied_log) = 3"
    by (simp add: ordered_changes_def tied_log_def log_only_def)
  have e: "get_changes_of_feed tied_log None None (2 ^ 62) None = Inr (ordered_changes tied_log)"
    by (simp add: get_changes_of_feed_def limit_all_def MAX_BIGINT_def l)
  have f: "get_changes_of_feed tied_log None None (2 ^ 62 + 2 ^ 62) None = Inl DataError"
    by (simp add: get_changes_of_feed_def limit_all_def MAX_BIGINT_def)
  show ?thesis using a b c e f by (intro conjI)
qed

subsection \<open>The page limit\<close>

lemma load_feed_total: "\<exists>r. load_feed isoformat gd cs lang = Inr r"
  using load_feed_result [of isoformat gd cs lang] by blast

lemma load_feed_length:
  assumes "load_feed isoformat gd cs lang = Inr r"
  shows "length (feed r) \<le> length cs"
proof -
  let ?s = "filter (loaded (load_documents gd (get_documents_to_load cs) lang)) cs"
  from load_feed_result [of isoformat gd cs lang] assms
  have "\<exists>es. feed r = es \<and> length ?s = length es"
    by (auto dest: list_all2_lengthD)
  then have "length (feed r) = length ?s" by auto
  then show ?thesis by simp
qed

lemma get_changes_of_feed_length:
  assumes "get_changes_of_feed db token_id token_time limit extra_filter = Inr cs"
  shows "int (length cs) \<le> limit"
proof -
  have "\<exists>rows. limit_all limit rows = Inr cs"
    using assms unfolding get_changes_of_feed_def Let_def by blast
  then show ?thesis by (auto simp: limit_all_def split: if_splits)
qed

lemma get_changes_of_personal_feed_length:
  assumes "get_changes_of_personal_feed db uid token_id token_time limit = Inr cs"
  shows "int (length cs) \<le> limit"
  using assms unfolding get_changes_of_personal_feed_def Let_def
  by (auto split: option.splits if_splits dest: get_changes_of_feed_length)

lemma get_changes_of_profile_feed_length:
  assumes "get_changes_of_profile_feed db uid token_id token_time limit = Inr cs"
  shows "int (length cs) \<le> limit"
  using assms unfolding get_changes_of_profile_feed_def Let_def
  by (auto split: if_splits dest: get_changes_of_feed_length)

lemma bind_eq_Inr: "bind m f = Inr r \<longleftrightarrow> (\<exists>v. m = Inr v \<and> f v = Inr r)"
  by (cases m) auto

lemma FeedRest_get_length:
  assumes "FeedRest_get isoformat gd db req = Inr r"
  shows "int (length (feed r)) \<le> effective_limit req"
proof -
  obtain lang token_id token_time limit where p: "get_params req = (lang, token_id, token_time, limit)"
    by (cases "get_params req") auto
  from assms p obtain cs where
    "get_changes_of_feed db token_id token_time limit None = Inr cs"
    "load_feed isoformat gd cs lang = Inr r"
    by (auto simp: FeedRest_get_def bind_eq_Inr)
  then have "int (length (feed r)) \<le> limit"
    using get_changes_of_feed_length load_feed_length by fastforce
  then show ?thesis by (simp add: effective_limit_def p)
qed

lemma PersonalFeedRest_get_length:
  assumes "PersonalFeedRest_get isoformat gd db req = Inr r"
  shows "int (length (feed r)) \<le> effective_limit req"
proof -
  obtain lang token_id token_time limit where p: "get_params req = (lang, token_id, token_time, limit)"
    by (cases "get_params req") auto
  from assms p obtain cs uid where
    "get_changes_of_personal_feed db uid token_id token_time limit = Inr cs"
    "load_feed isoformat gd cs lang = Inr r"
    by (auto simp: PersonalFeedRest_get_def bind_eq_Inr split: option.splits)
  then have "int (length (feed r)) \<le> limit"
    using get_changes_of_personal_feed_length load_feed_length by fastforce
  then show ?thesis by (simp add: effective_limit_def p)
qed

lemma ProfileFeedRest_get_length:
  assumes "ProfileFeedRest_get isoformat gd db req = Inr r"
  shows "int (length (feed r)) \<le> effective_limit req"
proof -
  obtain lang token_id token_time limit where p: "get_params req = (lang, token_id, token_time, limit)"
    by (cases "get_params req") auto
  from assms p obtain cs where
    "get_changes_of_profile_feed db (validated_u req) token_id token_time limit = Inr cs"
    "load_feed isoformat gd cs lang = Inr r"
    by (auto simp: ProfileFeedRest_get_def Let_def bind_eq_Inr split: option.splits if_splits)
  then have "int (length (feed r)) \<le> limit"
    using get_changes_of_profile_feed_length load_feed_length by fastforce
  then show ?thesis by (simp add: effective_limit_def p)
qed

lemma effective_limit_eq:
  "effective_limit req = min (case validated_limit req of None \<Rightarrow> 10 | Some l \<Rightarrow> l) 50"
  by (simp add: effective_limit_def get_params_def Let_def DEFAULT_PAGE_LIMIT_def MAX_PAGE_LIMIT_def
        split: option.splits)

text \<open>
  C7 (amended). The limit that reaches the query is the smaller of 50 and the supplied
  limit, or 10 when none is supplied: it is never above 50, it is 10 when the parameter is
  absent, it is 50 for \<open>limit=1000\<close>, and it is at least 1 whenever the supplied limit is
  at least 1 (no lower bound is applied to a smaller one). Every response of the three
  views has at most that many entries: at most 50, and at most 10 when the limit is absent.
\<close>

theorem page_limit:
  "effective_limit req = min (case validated_limit req of None \<Rightarrow> 10 | Some l \<Rightarrow> l) 50
   \<and> effective_limit req \<le> 50
   \<and> (validated_limit req = None \<longrightarrow> effective_limit req = 10)
   \<and> (validated_limit req = Some 1000 \<longrightarrow> effective_limit req = 50)
   \<and> (\<forall>l. validated_limit req = Some l \<and> 1 \<le> l \<longrightarrow> 1 \<le> effective_limit req)
   \<and> (\<forall>r. FeedRest_get isoformat gd db req = Inr r
           \<or> PersonalFeedRest_get isoformat gd db req = Inr r
           \<or> ProfileFeedRest_get isoformat gd db req = Inr r
         \<longrightarrow> int (length (feed r)) \<le> effective_limit req
           \<and> length (feed r) \<le> 50
           \<and> (validated_limit req = None \<longrightarrow> length (feed r) \<le> 10))"
proof -
  have a: "effective_limit req \<le> 50" by (simp add: effective_limit_eq)
  have b: "validated_limit req = None \<longrightarrow> effective_limit req = 10"
    by (simp add: effective_limit_eq)
  have c: "validated_limit req = Some 1000 \<longrightarrow> effective_limit req = 50"
    by (simp add: effective_limit_eq)
  have d: "\<forall>l. validated_limit req = Some l \<and> 1 \<le> l \<longrightarrow> 1 \<le> effective_limit req"
    by (auto simp: effective_limit_eq)
  have e: "int (length (feed r)) \<le> effective_limit req
           \<and> length (feed r) \<le> 50
           \<and> (validated_limit req = None \<longrightarrow> length (feed r) \<le> 10)"
    if "FeedRest_get isoformat gd db req = Inr r
           \<or> PersonalFeedRest_get isoformat gd db req = Inr r
           \<or> ProfileFeedRest_get isoformat gd db req = Inr r" for r
  proof -
    have "int (length (feed r)) \<le> effective_limit req"
      using that FeedRest_get_length PersonalFeedRest_get_length ProfileFeedRest_get_length
      by blast
    then show ?thesis using a b by auto
  qed
  show ?thesis using effective_limit_eq a b c d e by blast
qed

lemma get_changes_of_feed_returns:
  "0 \<le> limit \<Longrightarrow> limit \<le> MAX_BIGINT \<Longrightarrow>
     \<exists>cs. get_changes_of_feed db token_id token_time limit extra_filter = Inr cs"
  by (simp add: get_changes_of_feed_def limit_all_def Let_def)

lemma effective_limit_bigint: "effective_limit req \<le> MAX_BIGINT"
  by (simp add: effective_limit_eq MAX_BIGINT_def)

lemma FeedRest_get_returns:
  assumes "0 \<le> effective_limit req"
  shows "\<exists>r. FeedRest_get isoformat gd db req = Inr r"
proof -
  obtain lang token_id token_time limit where p: "get_params req = (lang, token_id, token_time, limit)"
    by (cases "get_params req") auto
  then have "0 \<le> limit" "limit \<le> MAX_BIGINT"
    using assms effective_limit_bigint [of req] by (simp_all add: effective_limit_def)
  then obtain cs where "get_changes_of_feed db token_id token_time limit None = Inr cs"
    using get_changes_of_feed_returns by blast
  then show ?thesis using p load_feed_total [of isoformat gd cs lang]
    by (auto simp: FeedRest_get_def)
qed

theorem page_limit_witness:
  "effective_limit (anonymous_request (Some 1000)) = 50
   \<and> (\<exists>r. FeedRest_get str_int listing_all tied_log (anonymous_request (Some 1000)) = Inr r
         \<and> length (feed r) \<le> 50)
   \<and> effective_limit (anonymous_request None) = 10
   \<and> (\<exists>r. FeedRest_get str_int listing_all tied_log (anonymous_request None) = Inr r
         \<and> length (feed r) \<le> 10)"
proof -
  let ?req = "anonymous_request (Some 1000)"
  let ?none = "anonymous_request None"
  have v: "validated_limit ?req = Some 1000" by (simp add: anonymous_request_def)
  have n: "validated_limit ?none = None" by (simp add: anonymous_request_def)
  have l: "effective_limit ?req = 50"
    using page_limit [of ?req str_int listing_all tied_log] v by simp
  then obtain r where r: "FeedRest_get str_int listing_all tied_log ?req = Inr r"
    using FeedRest_get_returns [of ?req str_int listing_all tied_log] by auto
  then have r50: "length (feed r) \<le> 50"
    using page_limit [of ?req str_int listing_all tied_log] by blast
  have l': "effective_limit ?none = 10"
    using page_limit [of ?none str_int listing_all tied_log] n by simp
  then obtain r' where r': "FeedRest_get str_int listing_all tied_log ?none = Inr r'"
    using FeedRest_get_returns [of ?none str_int listing_all tied_log] by auto
  then have r10: "length (feed r') \<le> 10"
    using page_limit [of ?none str_int listing_all tied_log] n by blast
  show ?thesis using l r r50 l' r' r10 by blast
qed

theorem page_limit_counterexample:
  "\<not> (1 \<le> effective_limit (anonymous_request (Some 0))
       \<and> effective_limit (anonymous_request (Some 0)) \<le> 50)"
  by (simp add: effective_limit_def get_params_def anonymous_request_def
        DEFAULT_PAGE_LIMIT_def MAX_PAGE_LIMIT_def)

subsection \<open>The cursor and the entries of a response\<close>

lemma loaded_conv: "loaded documents = (\<lambda>c. documents (user_id c) \<noteq> None \<and> documents (document_id c) \<noteq> None)"
  by (rule ext) (simp add: loaded_def)

lemma list_all2_last:
  "list_all2 P xs ys \<Longrightarrow> xs \<noteq> [] \<Longrightarrow> P (last xs) (last ys) \<and> ys \<noteq> []"
  by (induction rule: list_all2_induct) (auto simp: list_all2_Nil)

lemma feed_entry_time: "feed_entry isoformat documents c = Inr e \<Longrightarrow> entry_time e = isoformat (time c)"
  by (auto simp: feed_entry_def bind_def split: sum.splits)

text \<open>
  C4. When at least one change of the fetched page survives the filter on loaded actor and
  document, the response exists and its \<open>pagination_token\<close> is the id of the last
  surviving change, a comma, and the ISO rendering of its time; that change is also the one
  behind the last entry of the feed. The changes that follow it in the fetched page, dropped
  by the filter, leave no trace in the token.
\<close>

theorem cursor_of_last_surviving:
  fixes gd :: listing and cs :: "DocumentChange list" and lang :: "string option"
  defines "documents \<equiv> load_documents gd (get_documents_to_load cs) lang"
  defines "surviving \<equiv>
    filter (\<lambda>c. documents (user_id c) \<noteq> None \<and> documents (document_id c) \<noteq> None) cs"
  assumes "surviving \<noteq> []"
  shows "\<exists>r. load_feed isoformat gd cs lang = Inr r
           \<and> pagination_token r =
               Some (str_int (change_id (last surviving)) @ '','' @ isoformat (time (last surviving)))
           \<and> feed r \<noteq> []
           \<and> entry_id (last (feed r)) = change_id (last surviving)
           \<and> entry_time (last (feed r)) = isoformat (time (last surviving))"
proof -
  have s: "filter (loaded documents) cs = surviving"
    by (simp add: surviving_def loaded_conv)
  from load_feed_result [of isoformat gd cs lang] obtain es where
    r: "load_feed isoformat gd cs lang =
          Inr \<lparr> feed = es, pagination_token = Some (format_token isoformat (last surviving)) \<rparr>"
    and l: "list_all2 (\<lambda>c e. feed_entry isoformat documents c = Inr e) surviving es"
    using assms(3) unfolding documents_def [symmetric] s by auto
  have le: "feed_entry isoformat documents (last surviving) = Inr (last es)" and ne: "es \<noteq> []"
    using list_all2_last [OF l assms(3)] by auto
  show ?thesis
    using r ne feed_entry_id [OF le] feed_entry_time [OF le] by (simp add: format_token_def)
qed

theorem cursor_of_last_surviving_witness:
  "\<exists>r. load_feed str_int (listing_without [101]) [change 10 2 1 100, change 9 1 1 101] None = Inr r
     \<and> pagination_token r = Some ''10,2''
     \<and> entry_id (last (feed r)) = 10"
proof -
  let ?cs = "[change 10 2 1 100, change 9 1 1 101]"
  let ?d = "load_documents (listing_without [101]) (get_documents_to_load ?cs) None"
  have s: "filter (\<lambda>c. ?d (user_id c) \<noteq> None \<and> ?d (document_id c) \<noteq> None) ?cs
             = [change 10 2 1 100]"
    by code_simp
  have t: "str_int 10 @ '','' @ str_int 2 = ''10,2''" by code_simp
  have "\<exists>r. load_feed str_int (listing_without [101]) ?cs None = Inr r
     \<and> pagination_token r =
           Some (str_int (change_id (last [change 10 2 1 100])) @ '','' @
                 str_int (time (last [change 10 2 1 100])))
     \<and> feed r \<noteq> []
     \<and> entry_id (last (feed r)) = change_id (last [change 10 2 1 100])
     \<and> entry_time (last (feed r)) = str_int (time (last [change 10 2 1 100]))"
    using cursor_of_last_surviving [where gd = "listing_without [101]" and cs = ?cs
        and lang = None and isoformat = str_int]
    unfolding s by simp
  then obtain r where "load_feed str_int (listing_without [101]) ?cs None = Inr r"
    and "pagination_token r = Some (str_int 10 @ '','' @ str_int 2)"
    and "entry_id (last (feed r)) = 10"
    by (auto simp: change_def)
  then show ?thesis using t by auto
qed







subsection \<open>The scenario of two changes\<close>

lemma str_int_10: "str_int 10 = ''10''"
  by code_simp

lemma str_int_9: "str_int 9 = ''9''"
  by code_simp

lemma ordered_scenario:
  "T1 < T2 \<Longrightarrow> ordered_changes (scenario T1 T2) = [change 10 T2 1 100, change 9 T1 1 101]"
  by (simp add: ordered_changes_def scenario_def log_only_def change_def order_key_def)

lemma with_token_format:
  assumes "parse_time (isoformat (time c)) = Some (time c)"
  shows "with_token parse_time req (Some (format_token isoformat c))
           = Inr (req \<lparr> validated_token_id := Some (change_id c),
                         validated_token_time := Some (time c) \<rparr>)"
  using validate_format_token [of parse_time isoformat c] assms by (simp add: with_token_def)

lemma FeedRest_get_limit_1:
  "FeedRest_get isoformat gd db ((anonymous_request (Some 1))
       \<lparr> validated_token_id := i, validated_token_time := t \<rparr>)
     = bind (get_changes_of_feed db i t 1 None) (\<lambda>changes. load_feed isoformat gd changes None)"
  by (simp add: FeedRest_get_def get_params_def anonymous_request_def
        DEFAULT_PAGE_LIMIT_def MAX_PAGE_LIMIT_def)

lemma FeedRest_get_limit_1_first:
  "FeedRest_get isoformat gd db (anonymous_request (Some 1))
     = bind (get_changes_of_feed db None None 1 None) (\<lambda>changes. load_feed isoformat gd changes None)"
  by (simp add: FeedRest_get_def get_params_def anonymous_request_def
        DEFAULT_PAGE_LIMIT_def MAX_PAGE_LIMIT_def)

text \<open>
  C8 (amended). Let the log hold exactly the change with id 10 at time \<open>T2\<close> and the change
  with id 9 at time \<open>T1\<close>, with \<open>T1 < T2\<close>, let the listing find every id, and let the time
  parser read back the two rendered times. A request of the global feed with \<open>limit=1\<close>
  returns the entry of id 10 alone, with the token \<open>"10,T2"\<close>. The request with that token
  returns the entry of id 9 alone, and its response carries the token \<open>"9,T1"\<close>: a response
  with an entry always has a token. Only the request with this last token finds nothing
  older and returns an empty feed without a token.
\<close>

theorem two_changes_scenario:
  assumes "T1 < T2"
    and "\<forall>ids ty. set ids \<subseteq> doc_document_id ` set (gd ids None ty)"
    and "parse_time (isoformat T1) = Some T1" and "parse_time (isoformat T2) = Some T2"
  shows "\<exists>r1 req2 r2 req3.
           FeedRest_get isoformat gd (scenario T1 T2) (anonymous_request (Some 1)) = Inr r1
         \<and> map entry_id (feed r1) = [10]
         \<and> pagination_token r1 = Some (''10,'' @ isoformat T2)
         \<and> with_token parse_time (anonymous_request (Some 1)) (pagination_token r1) = Inr req2
         \<and> FeedRest_get isoformat gd (scenario T1 T2) req2 = Inr r2
         \<and> map entry_id (feed r2) = [9]
         \<and> pagination_token r2 = Some (''9,'' @ isoformat T1)
         \<and> with_token parse_time (anonymous_request (Some 1)) (pagination_token r2) = Inr req3
         \<and> FeedRest_get isoformat gd (scenario T1 T2) req3
              = Inr \<lparr> feed = [], pagination_token = None \<rparr>"
proof -
  let ?db = "scenario T1 T2"
  let ?req = "anonymous_request (Some 1)"
  let ?c10 = "change 10 T2 1 100"
  let ?c9 = "change 9 T1 1 101"
  let ?req2 = "?req \<lparr> validated_token_id := Some 10, validated_token_time := Some T2 \<rparr>"
  let ?req3 = "?req \<lparr> validated_token_id := Some 9, validated_token_time := Some T1 \<rparr>"
  have o: "ordered_changes ?db = [?c10, ?c9]" using assms(1) by (rule ordered_scenario)
  have page: "\<exists>r. load_feed isoformat gd [c] None = Inr r
                \<and> pagination_token r = Some (format_token isoformat c)
                \<and> map entry_id (feed r) = [change_id c]" for c
    using load_feed_complete [where gd = gd and lang = None and isoformat = isoformat and cs = "[c]"]
      assms(2) by force
  have g1: "get_changes_of_feed ?db None None 1 None = Inr [?c10]"
    by (simp add: get_changes_first_page MAX_BIGINT_def o)
  have g2: "get_changes_of_feed ?db (Some 10) (Some T2) 1 None = Inr [?c9]"
    using assms(1) by (simp add: get_changes_next_page MAX_BIGINT_def o pagination_filter_def change_def)
  have g3: "get_changes_of_feed ?db (Some 9) (Some T1) 1 None = Inr []"
    using assms(1) by (simp add: get_changes_next_page MAX_BIGINT_def o pagination_filter_def change_def)
  have t10: "format_token isoformat ?c10 = ''10,'' @ isoformat T2"
    by (simp add: format_token_def change_def str_int_10)
  have t9: "format_token isoformat ?c9 = ''9,'' @ isoformat T1"
    by (simp add: format_token_def change_def str_int_9)
  obtain r1 where r1: "load_feed isoformat gd [?c10] None = Inr r1"
    and k1: "pagination_token r1 = Some (format_token isoformat ?c10)"
    and e1: "map entry_id (feed r1) = [10]"
    using page [of ?c10] by (auto simp: change_def)
  obtain r2 where r2: "load_feed isoformat gd [?c9] None = Inr r2"
    and k2: "pagination_token r2 = Some (format_token isoformat ?c9)"
    and e2: "map entry_id (feed r2) = [9]"
    using page [of ?c9] by (auto simp: change_def)
  have f1: "FeedRest_get isoformat gd ?db ?req = Inr r1"
    by (simp add: FeedRest_get_limit_1_first g1 r1)
  have w2: "with_token parse_time ?req (pagination_token r1) = Inr ?req2"
    using with_token_format [of parse_time isoformat ?c10 ?req] assms(4)
    by (simp add: k1 change_def)
  have f2: "FeedRest_get isoformat gd ?db ?req2 = Inr r2"
    by (simp add: FeedRest_get_limit_1 g2 r2)
  have w3: "with_token parse_time ?req (pagination_token r2) = Inr ?req3"
    using with_token_format [of parse_time isoformat ?c9 ?req] assms(3)
    by (simp add: k2 change_def)
  have f3: "FeedRest_get isoformat gd ?db ?req3 = Inr \<lparr> feed = [], pagination_token = None \<rparr>"
    by (simp add: FeedRest_get_limit_1 g3 load_feed_def)
  have k1': "pagination_token r1 = Some (''10,'' @ isoformat T2)" using k1 t10 by simp
  have k2': "pagination_token r2 = Some (''9,'' @ isoformat T1)" using k2 t9 by simp
  show ?thesis
    using f1 e1 k1' w2 f2 e2 k2' w3 f3
    by - ((rule exI)+, (rule conjI, assumption)+, assumption)
qed

theorem two_changes_scenario_witness:
  "(1::int) < 2
   \<and> (\<exists>r1 req2 r2 req3.
           FeedRest_get str_int listing_all (scenario 1 2) (anonymous_request (Some 1)) = Inr r1
         \<and> map entry_id (feed r1) = [10]
         \<and> pagination_token r1 = Some ''10,2''
         \<and> with_token parse_int (anonymous_request (Some 1)) (pagination_token r1) = Inr req2
         \<and> FeedRest_get str_int listing_all (scenario 1 2) req2 = Inr r2
         \<and> map entry_id (feed r2) = [9]
         \<and> pagination_token r2 = Some ''9,1''
         \<and> with_token parse_int (anonymous_request (Some 1)) (pagination_token r2) = Inr req3
         \<and> FeedRest_get str_int listing_all (scenario 1 2) req3
              = Inr \<lparr> feed = [], pagination_token = None \<rparr>)"
proof -
  have gd: "\<forall>ids ty. set ids \<subseteq> doc_document_id ` set (listing_all ids None ty)"
    by (simp add: listing_all_def view_def image_image)
  have s1: "str_int 1 = ''1''" by code_simp
  have s2: "str_int 2 = ''2''" by code_simp
  have "\<exists>r1 req2 r2 req3.
           FeedRest_get str_int listing_all (scenario 1 2) (anonymous_request (Some 1)) = Inr r1
         \<and> map entry_id (feed r1) = [10]
         \<and> pagination_token r1 = Some (''10,'' @ str_int 2)
         \<and> with_token parse_int (anonymous_request (Some 1)) (pagination_token r1) = Inr req2
         \<and> FeedRest_get str_int listing_all (scenario 1 2) req2 = Inr r2
         \<and> map entry_id (feed r2) = [9]
         \<and> pagination_token r2 = Some (''9,'' @ str_int 1)
         \<and> with_token parse_int (anonymous_request (Some 1)) (pagination_token r2) = Inr req3
         \<and> FeedRest_get str_int listing_all (scenario 1 2) req3
              = Inr \<lparr> feed = [], pagination_token = None \<rparr>"
    by (rule two_changes_scenario [where parse_time = parse_int and isoformat = str_int])
       (simp_all add: gd parse_int_str_int)
  then show ?thesis unfolding s1 s2 by simp
qed

theorem two_changes_scenario_counterexample:
  "bind (with_token parse_int (anonymous_request (Some 1)) (Some ''10,2''))
        (FeedRest_get str_int listing_all (scenario 1 2))
     = Inr \<lparr> feed =
               [\<lparr> entry_id = 9, entry_time = ''1'', entry_user = view ''u'' 1, participants = [],
                  entry_change_type = ''created'', entry_document = view ''o'' 101,
                  image1 = None, image2 = None, image3 = None, entry_more_images = False \<rparr>],
             pagination_token = Some ''9,1'' \<rparr>"
  by code_simp

subsection \<open>The personal filter\<close>

lemma get_changes_of_personal_feed_filter:
  assumes "find (\<lambda>u. User_id u = uid) (users db) = Some user"
    and "create_personal_filter db user = Some f"
  shows "get_changes_of_personal_feed db uid token_id token_time limit
           = get_changes_of_feed db token_id token_time limit (Some f)"
proof -
  have "\<not> has_no_custom_filter db user"
    using assms(2)
    by (auto simp: has_no_custom_filter_def create_personal_filter_def
          create_followed_users_filter_def Let_def split: if_splits)
  then show ?thesis using assms by (simp add: get_changes_of_personal_feed_def)
qed

lemma get_changes_of_feed_first_filtered:
  "get_changes_of_feed db None None limit (Some f)
     = limit_all limit (filter (holds f) (ordered_changes db))"
  by (simp add: get_changes_of_feed_def)

text \<open>
  C2 (amended). Let the user have an area filter and an activity filter and let
  \<open>feed_followed_only\<close> be unset. Then the personal filter exists. When the user follows
  no one it holds of exactly the changes whose \<open>area_ids\<close> meet the filtered areas and
  whose \<open>activities\<close> meet the filtered activities: the two are connected by "and". When
  the user follows someone it holds, in addition, of the changes whose \<open>user_ids\<close> meet
  the followed users. The personal feed is the feed under that filter: its first page is
  the limit applied to the changes of the canonical order that the filter holds of.
\<close>

theorem personal_filter_composition:
  assumes "find (\<lambda>u. User_id u = uid) (users db) = Some user"
    and "\<not> feed_followed_only user"
    and "has_area_filter db user"
    and "feed_filter_activities user \<noteq> []"
  shows "\<exists>f. create_personal_filter db user = Some f
     \<and> (\<not> is_following_users db user \<longrightarrow>
          (\<forall>c. holds f c \<longleftrightarrow>
             overlap (area_ids c) (filtered_area_ids db user)
             \<and> overlap (activities c) (feed_filter_activities user)))
     \<and> (is_following_users db user \<longrightarrow>
          (\<forall>c. holds f c \<longleftrightarrow>
             (overlap (area_ids c) (filtered_area_ids db user)
              \<and> overlap (activities c) (feed_filter_activities user))
             \<or> overlap (user_ids c) (followed_ids db user)))
     \<and> get_changes_of_personal_feed db uid token_id token_time limit
           = get_changes_of_feed db token_id token_time limit (Some f)
     \<and> get_changes_of_personal_feed db uid None None limit
           = limit_all limit (filter (holds f) (ordered_changes db))"
proof -
  let ?aa = "sql_and (area_ids_overlap (filtered_area_ids db user))
                     (activities_overlap (feed_filter_activities user))"
  let ?f = "if is_following_users db user
            then sql_or ?aa (user_ids_overlap (followed_ids db user)) else ?aa"
  have f: "create_personal_filter db user = Some ?f"
    using assms(2-4)
    by (simp add: create_personal_filter_def create_area_filter_def create_activity_filter_def
          create_followed_users_filter_def Let_def)
  have p: "get_changes_of_personal_feed db uid ti tt limit
             = get_changes_of_feed db ti tt limit (Some ?f)" for ti tt
    using get_changes_of_personal_feed_filter [OF assms(1) f] .
  show ?thesis
    apply (rule exI [of _ ?f])
    apply (intro conjI)
        apply (rule f)
       apply simp
      apply simp
     apply (rule p)
    apply (simp only: p get_changes_of_feed_first_filtered)
    done
qed

theorem personal_filter_composition_witness:
  "get_changes_of_personal_feed (feed_db (member 1 False [''skitouring'']) [(1, 2)] [(1, 7)])
      1 None None 10
     = Inr [(change 4 4 2 103) \<lparr> area_ids := [9], activities := [''hiking''] \<rparr>,
            (change 2 2 5 101) \<lparr> area_ids := [7], activities := [''skitouring''] \<rparr>]
   \<and> get_changes_of_personal_feed (feed_db (member 1 False [''skitouring'']) [] [(1, 7)])
      1 None None 10
     = Inr [(change 2 2 5 101) \<lparr> area_ids := [7], activities := [''skitouring''] \<rparr>]"
proof -
  let ?u = "member 1 False [''skitouring'']"
  let ?db = "feed_db ?u [(1, 2)] [(1, 7)]"
  let ?alone = "feed_db ?u [] [(1, 7)]"
  have u: "find (\<lambda>u. User_id u = 1) (users ?db) = Some ?u" by (simp add: feed_db_def member_def)
  have u': "find (\<lambda>u. User_id u = 1) (users ?alone) = Some ?u"
    by (simp add: feed_db_def member_def)
  have a: "\<not> feed_followed_only ?u" "feed_filter_activities ?u \<noteq> []"
    by (simp_all add: member_def)
  have b: "has_area_filter ?db ?u" by (simp add: has_area_filter_def feed_db_def member_def)
  have b': "has_area_filter ?alone ?u" by (simp add: has_area_filter_def feed_db_def member_def)
  have c: "is_following_users ?db ?u" by (simp add: is_following_users_def feed_db_def member_def)
  have c': "\<not> is_following_users ?alone ?u" by (simp add: is_following_users_def feed_db_def)
  have fa: "filtered_area_ids ?db ?u = [7]" "followed_ids ?db ?u = [2]"
    "feed_filter_activities ?u = [''skitouring'']" "filtered_area_ids ?alone ?u = [7]"
    by (simp_all add: filtered_area_ids_def followed_ids_def feed_db_def member_def)
  from personal_filter_composition [OF u a(1) b a(2), where limit = 10] c
  obtain f where h: "\<forall>c. holds f c \<longleftrightarrow>
             (overlap (area_ids c) [7] \<and> overlap (activities c) [''skitouring''])
             \<or> overlap (user_ids c) [2]"
    and g: "get_changes_of_personal_feed ?db 1 None None 10
              = limit_all 10 (filter (holds f) (ordered_changes ?db))"
    unfolding fa by blast
  have "holds f = (\<lambda>c. (overlap (area_ids c) [7] \<and> overlap (activities c) [''skitouring''])
             \<or> overlap (user_ids c) [2])"
    using h by auto
  then have first: "get_changes_of_personal_feed ?db 1 None None 10
     = Inr [(change 4 4 2 103) \<lparr> area_ids := [9], activities := [''hiking''] \<rparr>,
            (change 2 2 5 101) \<lparr> area_ids := [7], activities := [''skitouring''] \<rparr>]"
    unfolding g
    by (simp add: limit_all_def MAX_BIGINT_def ordered_changes_def feed_db_def sample_changes_def change_def
          order_key_def overlap_def)
  from personal_filter_composition [OF u' a(1) b' a(2), where limit = 10] c'
  obtain f' where h': "\<forall>c. holds f' c \<longleftrightarrow>
             overlap (area_ids c) [7] \<and> overlap (activities c) [''skitouring'']"
    and g': "get_changes_of_personal_feed ?alone 1 None None 10
              = limit_all 10 (filter (holds f') (ordered_changes ?alone))"
    unfolding fa by blast
  have "holds f' = (\<lambda>c. overlap (area_ids c) [7] \<and> overlap (activities c) [''skitouring''])"
    using h' by auto
  then have second: "get_changes_of_personal_feed ?alone 1 None None 10
     = Inr [(change 2 2 5 101) \<lparr> area_ids := [7], activities := [''skitouring''] \<rparr>]"
    unfolding g'
    by (simp add: limit_all_def MAX_BIGINT_def ordered_changes_def feed_db_def sample_changes_def change_def
          order_key_def overlap_def)
  show ?thesis using first second by (rule conjI)
qed

theorem personal_filter_composition_counterexample:
  "get_changes_of_personal_feed (feed_db (member 1 False [''skitouring'']) [] [(1, 7)])
      1 None None 10
     \<noteq> limit_all 10 (filter (spec_composition [7] [''skitouring''])
           (ordered_changes (feed_db (member 1 False [''skitouring'']) [] [(1, 7)])))"
  by code_simp

lemma get_changes_of_feed_holds:
  assumes "get_changes_of_feed db token_id token_time limit (Some f) = Inr cs"
  shows "\<forall>c\<in>set cs. holds f c"
proof -
  obtain rows where "cs = take (nat limit) (filter (holds f) rows)"
    using assms
    by (auto simp: get_changes_of_feed_def limit_all_def Let_def split: if_splits)
  then show ?thesis by (auto dest: in_set_takeD)
qed

text \<open>
  C3 (amended). For a user with \<open>feed_followed_only\<close> set, the personal filter is what
  \<open>create_followed_users_filter\<close> returns, whatever area or activity filter is configured.
  When the user follows at least one user, that filter is the overlap of \<open>user_ids\<close> with
  the followed users, the personal feed is the feed under it, and every change it returns
  involves a followed user.
\<close>

theorem followed_only_precedence:
  assumes "find (\<lambda>u. User_id u = uid) (users db) = Some user"
    and "feed_followed_only user"
  shows "create_personal_filter db user = create_followed_users_filter db user
     \<and> (is_following_users db user \<longrightarrow>
          create_personal_filter db user = Some (user_ids_overlap (followed_ids db user))
          \<and> get_changes_of_personal_feed db uid token_id token_time limit
                = get_changes_of_feed db token_id token_time limit
                    (Some (user_ids_overlap (followed_ids db user)))
          \<and> (\<forall>cs. get_changes_of_personal_feed db uid token_id token_time limit = Inr cs \<longrightarrow>
                (\<forall>c\<in>set cs. overlap (user_ids c) (followed_ids db user))))"
proof -
  have a: "create_personal_filter db user = create_followed_users_filter db user"
    using assms(2) by (simp add: create_personal_filter_def)
  have b: "create_personal_filter db user = Some (user_ids_overlap (followed_ids db user))
          \<and> get_changes_of_personal_feed db uid token_id token_time limit
                = get_changes_of_feed db token_id token_time limit
                    (Some (user_ids_overlap (followed_ids db user)))
          \<and> (\<forall>cs. get_changes_of_personal_feed db uid token_id token_time limit = Inr cs \<longrightarrow>
                (\<forall>c\<in>set cs. overlap (user_ids c) (followed_ids db user)))"
    if fl: "is_following_users db user"
  proof -
    have f: "create_personal_filter db user = Some (user_ids_overlap (followed_ids db user))"
      using a fl by (simp add: create_followed_users_filter_def)
    have g: "get_changes_of_personal_feed db uid token_id token_time limit
                = get_changes_of_feed db token_id token_time limit
                    (Some (user_ids_overlap (followed_ids db user)))"
      using get_changes_of_personal_feed_filter [OF assms(1) f] .
    have "\<forall>c\<in>set cs. overlap (user_ids c) (followed_ids db user)"
      if "get_changes_of_personal_feed db uid token_id token_time limit = Inr cs" for cs
      using get_changes_of_feed_holds [of db token_id token_time limit _ cs] that g by fastforce
    then show ?thesis using f g by blast
  qed
  show ?thesis using a b by blast
qed

theorem followed_only_precedence_witness:
  "get_changes_of_personal_feed (feed_db (member 1 True [''skitouring'']) [(1, 2)] [(1, 7)])
      1 None None 10
     = Inr [(change 4 4 2 103) \<lparr> area_ids := [9], activities := [''hiking''] \<rparr>]"
proof -
  let ?u = "member 1 True [''skitouring'']"
  let ?db = "feed_db ?u [(1, 2)] [(1, 7)]"
  have u: "find (\<lambda>u. User_id u = 1) (users ?db) = Some ?u" by (simp add: feed_db_def member_def)
  have a: "feed_followed_only ?u" by (simp add: member_def)
  have c: "is_following_users ?db ?u" by (simp add: is_following_users_def feed_db_def member_def)
  have fa: "followed_ids ?db ?u = [2]"
    by (simp add: followed_ids_def feed_db_def member_def)
  from followed_only_precedence [OF u a, where limit = 10 and token_id = None and token_time = None] c
  have "get_changes_of_personal_feed ?db 1 None None 10
          = get_changes_of_feed ?db None None 10 (Some (user_ids_overlap [2]))"
    unfolding fa by blast
  then show ?thesis
    by (simp add: get_changes_of_feed_def limit_all_def MAX_BIGINT_def ordered_changes_def feed_db_def
          sample_changes_def change_def order_key_def overlap_def)
qed

theorem followed_only_precedence_counterexample:
  "feed_followed_only (member 1 True [''skitouring''])
   \<and> followed_ids (feed_db (member 1 True [''skitouring'']) [] [(1, 7)])
        (member 1 True [''skitouring'']) = []
   \<and> get_changes_of_personal_feed (feed_db (member 1 True [''skitouring'']) [] [(1, 7)])
        1 None None 1
       = Inr [(change 4 4 2 103) \<lparr> area_ids := [9], activities := [''hiking''] \<rparr>]"
  by code_simp

subsection \<open>No filter configured\<close>

text \<open>
  C6. For an authenticated user without activity filter, without area filter and with
  \<open>feed_followed_only\<close> unset, the personal feed view returns what the global feed view
  returns for the same request (the same response, or the same error), and the changes
  fetched for the personal feed are those fetched for the global feed, also when the user
  follows other users.
\<close>

theorem unfiltered_personal_feed:
  assumes "authenticated_userid req = Some uid"
    and "find (\<lambda>u. User_id u = uid) (users db) = Some user"
    and "feed_filter_activities user = []"
    and "\<not> has_area_filter db user"
    and "\<not> feed_followed_only user"
  shows "PersonalFeedRest_get isoformat gd db req = FeedRest_get isoformat gd db req
     \<and> get_changes_of_personal_feed db uid token_id token_time limit
          = get_changes_of_feed db token_id token_time limit None"
proof -
  have f: "create_personal_filter db user = None"
    using assms(3-5) by (simp add: create_personal_filter_def Let_def)
  have g: "get_changes_of_personal_feed db uid ti tt l = get_changes_of_feed db ti tt l None"
    for ti tt l
    using assms(2) f by (simp add: get_changes_of_personal_feed_def Let_def)
  show ?thesis
    using assms(1) g
    by (simp add: PersonalFeedRest_get_def FeedRest_get_def split: prod.splits)
qed

theorem unfiltered_personal_feed_witness:
  "is_following_users (feed_db (member 1 False []) [(1, 2)] []) (member 1 False [])
   \<and> PersonalFeedRest_get str_int listing_all (feed_db (member 1 False []) [(1, 2)] [])
        ((anonymous_request (Some 2)) \<lparr> authenticated_userid := Some 1 \<rparr>)
       = FeedRest_get str_int listing_all (feed_db (member 1 False []) [(1, 2)] [])
        ((anonymous_request (Some 2)) \<lparr> authenticated_userid := Some 1 \<rparr>)
   \<and> get_changes_of_personal_feed (feed_db (member 1 False []) [(1, 2)] []) 1 None None 2
       = Inr [(change 4 4 2 103) \<lparr> area_ids := [9], activities := [''hiking''] \<rparr>,
              (change 3 3 6 102) \<lparr> area_ids := [8], activities := [''skitouring''] \<rparr>]"
proof -
  let ?u = "member 1 False []"
  let ?db = "feed_db ?u [(1, 2)] []"
  let ?req = "(anonymous_request (Some 2)) \<lparr> authenticated_userid := Some 1 \<rparr>"
  have r: "authenticated_userid ?req = Some 1" by simp
  have u: "find (\<lambda>u. User_id u = 1) (users ?db) = Some ?u" by (simp add: feed_db_def member_def)
  have a: "feed_filter_activities ?u = []" "\<not> feed_followed_only ?u" by (simp_all add: member_def)
  have b: "\<not> has_area_filter ?db ?u" by (simp add: has_area_filter_def feed_db_def)
  have c: "is_following_users ?db ?u" by (simp add: is_following_users_def feed_db_def member_def)
  have g: "get_changes_of_feed ?db None None 2 None
       = Inr [(change 4 4 2 103) \<lparr> area_ids := [9], activities := [''hiking''] \<rparr>,
              (change 3 3 6 102) \<lparr> area_ids := [8], activities := [''skitouring''] \<rparr>]"
    by (simp add: get_changes_of_feed_def limit_all_def MAX_BIGINT_def ordered_changes_def feed_db_def
          sample_changes_def change_def order_key_def)
  show ?thesis
    using unfiltered_personal_feed [OF r u a(1) b a(2), where isoformat = str_int
        and gd = listing_all and token_id = None and token_time = None and limit = 2] c g
    by simp
qed

subsection \<open>The profile feed\<close>

lemma get_changes_of_feed_error:
  "get_changes_of_feed db token_id token_time limit extra_filter = Inl e \<Longrightarrow> e = DataError"
  by (auto simp: get_changes_of_feed_def limit_all_def Let_def split: if_splits)



lemma get_changes_of_profile_feed_exists:
  assumes "\<exists>u\<in>set (users db). User_id u = uid"
  shows "get_changes_of_profile_feed db uid token_id token_time limit
           = get_changes_of_feed db token_id token_time limit (Some (user_ids_overlap [uid]))"
  using assms by (simp add: get_changes_of_profile_feed_def list_ex_iff Let_def)

lemma ProfileFeedRest_get_not_found:
  assumes "find (\<lambda>u. User_id u = validated_u req \<and> email_validated u) (users db) = None"
  shows "ProfileFeedRest_get isoformat gd db req = Inl HTTPNotFound"
  using assms by (simp add: ProfileFeedRest_get_def Let_def split: prod.splits)






text \<open>
  C10. When a user row with the requested id exists and no row with that id has a
  validated email, the profile feed view ends with \<open>HTTPNotFound\<close> (404), as it does when
  the table of users has no row at all. The existence check of
  \<open>get_changes_of_profile_feed\<close> does not look at the email: called for that id, it passes
  and goes on to fetch the changes of the user, so it does not end with \<open>HTTPNotFound\<close>.
\<close>

theorem unvalidated_email_not_found:
  assumes "\<exists>u\<in>set (users db). User_id u = validated_u req"
    and "\<forall>u\<in>set (users db). User_id u = validated_u req \<longrightarrow> \<not> email_validated u"
  shows "ProfileFeedRest_get isoformat gd db req = Inl HTTPNotFound
     \<and> ProfileFeedRest_get isoformat gd (db \<lparr> users := [] \<rparr>) req = Inl HTTPNotFound
     \<and> get_changes_of_profile_feed db (validated_u req) token_id token_time limit
          = get_changes_of_feed db token_id token_time limit
              (Some (user_ids_overlap [validated_u req]))
     \<and> get_changes_of_profile_feed db (validated_u req) token_id token_time limit
          \<noteq> Inl HTTPNotFound"
proof -
  have "find (\<lambda>u. User_id u = validated_u req \<and> email_validated u) (users db) = None"
    using assms(2) by (auto simp: find_None_iff)
  then have a: "ProfileFeedRest_get isoformat gd db req = Inl HTTPNotFound"
    by (rule ProfileFeedRest_get_not_found)
  have b: "ProfileFeedRest_get isoformat gd (db \<lparr> users := [] \<rparr>) req = Inl HTTPNotFound"
    by (rule ProfileFeedRest_get_not_found) simp
  have c: "get_changes_of_profile_feed db (validated_u req) token_id token_time limit
          = get_changes_of_feed db token_id token_time limit
              (Some (user_ids_overlap [validated_u req]))"
    using assms(1) by (rule get_changes_of_profile_feed_exists)
  have d: "get_changes_of_profile_feed db (validated_u req) token_id token_time limit
          \<noteq> Inl HTTPNotFound"
    unfolding c using get_changes_of_feed_error by fastforce
  show ?thesis using a b c d by blast
qed

theorem unvalidated_email_not_found_witness:
  "ProfileFeedRest_get str_int listing_all
      (feed_db ((member 2 False []) \<lparr> email_validated := False \<rparr>) [] []) (profile_request 2)
     = Inl HTTPNotFound
   \<and> get_changes_of_profile_feed
        (feed_db ((member 2 False []) \<lparr> email_validated := False \<rparr>) [] []) 2 None None 1
     = Inr [(change 4 4 2 103) \<lparr> area_ids := [9], activities := [''hiking''] \<rparr>]"
proof -
  let ?u = "(member 2 False []) \<lparr> email_validated := False \<rparr>"
  let ?db = "feed_db ?u [] []"
  have v: "validated_u (profile_request 2) = 2"
    by (simp add: profile_request_def anonymous_request_def)
  have a: "\<exists>u\<in>set (users ?db). User_id u = validated_u (profile_request 2)"
    by (simp add: feed_db_def member_def v)
  have b: "\<forall>u\<in>set (users ?db). User_id u = validated_u (profile_request 2) \<longrightarrow> \<not> email_validated u"
    by (simp add: feed_db_def member_def)
  have g: "get_changes_of_feed ?db None None 1 (Some (user_ids_overlap [2]))
             = Inr [(change 4 4 2 103) \<lparr> area_ids := [9], activities := [''hiking''] \<rparr>]"
    by (simp add: get_changes_of_feed_def limit_all_def MAX_BIGINT_def ordered_changes_def feed_db_def
          sample_changes_def change_def order_key_def overlap_def)
  show ?thesis
    using unvalidated_email_not_found [OF a b, where isoformat = str_int and gd = listing_all
        and token_id = None and token_time = None and limit = 1] g
    unfolding v by simp
qed

end
